theory Spec2Isabelle
  imports Main "HOL-Library.Multiset" "HOL-Library.Code_Target_Nat"
    "HOL-Library.Char_ord" "HOL-Library.List_Lexorder" "HOL-Library.Product_Lexorder"
begin

section \<open>JavaScript values used by the manager\<close>

text \<open>
  A thrown JavaScript error is a value with a name and a message. Every function of the
  model that can throw returns \<open>error + 'a\<close>, with \<open>Inl\<close> for the thrown error.
\<close>

datatype error = JsError string string

abbreviation TypeError :: "string \<Rightarrow> error" where
  "TypeError msg \<equiv> JsError ''TypeError'' msg"

abbreviation Error :: "string \<Rightarrow> error" where
  "Error msg \<equiv> JsError ''Error'' msg"

text \<open>\<open>String(error)\<close>, as a template literal \<open>${error}\<close> computes it.\<close>

fun error_toString :: "error \<Rightarrow> string" where
  "error_toString (JsError n m) =
     (if n = [] then m else if m = [] then n else n @ '': '' @ m)"

text \<open>
  An optional property of an object literal: the key may be missing, or present with the
  value \<open>undefined\<close> (TypeScript's \<open>installDir?: string\<close> admits both), or present
  with a value. Reading the property gives \<open>undefined\<close> (\<open>None\<close>) in the first two cases.
\<close>

datatype 'a optional = Absent | Undefined | Value 'a

fun get :: "'a optional \<Rightarrow> 'a option" where
  "get Absent = None"
| "get Undefined = None"
| "get (Value x) = Some x"

text \<open>
  Strings are lists of code units; the model covers the code units below 256.
  \<open>String.prototype.trim\<close> removes white space and line terminators at both ends: in
  this range TAB, LF, VT, FF, CR, SP and NBSP.
\<close>

definition is_whitespace :: "char \<Rightarrow> bool" where
  "is_whitespace c = ((of_char c :: nat) \<in> {9, 10, 11, 12, 13, 32, 160})"

definition trim :: "string \<Rightarrow> string" where
  "trim s = rev (dropWhile is_whitespace (rev (dropWhile is_whitespace s)))"

text \<open>\<open>s.replace(/^v/, '')\<close>: one leading \<open>v\<close> is removed, if there is one.\<close>

fun replace_v :: "string \<Rightarrow> string" where
  "replace_v [] = []"
| "replace_v (c # cs) = (if c = CHR ''v'' then cs else c # cs)"

definition startsWith :: "string \<Rightarrow> string \<Rightarrow> bool" where
  "startsWith s p = (take (length p) s = p)"

text \<open>\<open>s.split(sep)\<close> for a one-character separator, and \<open>xs.join(sep)\<close>.\<close>

fun split :: "char \<Rightarrow> string \<Rightarrow> string list" where
  "split sep [] = [[]]"
| "split sep (c # cs) =
     (if c = sep then [] # split sep cs
      else (case split sep cs of [] \<Rightarrow> [[c]] | x # xs \<Rightarrow> (c # x) # xs))"

fun join :: "string \<Rightarrow> string list \<Rightarrow> string" where
  "join sep [] = []"
| "join sep [x] = x"
| "join sep (x # y # ys) = x @ sep @ join sep (y # ys)"

text \<open>
  Decimal digits, and the conversions between a non-negative integer and its decimal
  string: \<open>+s\<close> on a string of digits and \<open>String(n)\<close> on an integer.
\<close>

definition is_digit :: "char \<Rightarrow> bool" where
  "is_digit c = (48 \<le> (of_char c :: nat) \<and> (of_char c :: nat) \<le> 57)"

definition digit_value :: "char \<Rightarrow> nat" where
  "digit_value c = of_char c - 48"

definition digit_char :: "nat \<Rightarrow> char" where
  "digit_char d = char_of (48 + d)"

definition to_number :: "string \<Rightarrow> nat" where
  "to_number s = foldl (\<lambda>acc c. 10 * acc + digit_value c) 0 s"

text \<open>
  A JavaScript number is a double. \<open>to_double n\<close> is the value of the double nearest to
  the integer \<open>n\<close>, ties going to the even 53-bit significand; it is \<open>n\<close> itself below
  \<open>2^53\<close>. The exponent is the least \<open>e\<close> that leaves \<open>n div 2^e\<close> below \<open>2^53\<close>.
  \<open>Number s\<close> is \<open>+s\<close> on a string of digits.
\<close>

function exponent :: "nat \<Rightarrow> nat \<Rightarrow> nat" where
  "exponent n e = (if n div 2 ^ e < 2 ^ 53 then e else exponent n (Suc e))"
  by pat_completeness auto
termination
proof (relation "measure (\<lambda>(n, e). n div 2 ^ e)")
  show "wf (measure (\<lambda>(n, e). n div 2 ^ e))" by simp
next
  fix n e :: nat
  assume "\<not> n div 2 ^ e < 2 ^ 53"
  then have "0 < n div 2 ^ e" by simp
  then have "n div 2 ^ e div 2 < n div 2 ^ e" by simp
  then have "n div 2 ^ Suc e < n div 2 ^ e" by (simp only: power_Suc2 div_mult2_eq)
  then show "((n, Suc e), (n, e)) \<in> measure (\<lambda>(n, e). n div 2 ^ e)" by simp
qed

declare exponent.simps [simp del]

definition to_double :: "nat \<Rightarrow> nat" where
  "to_double n =
     (if n < 2 ^ 53 then n
      else
        (let e = exponent n 0; q = n div 2 ^ e; r = n mod 2 ^ e
         in if 2 ^ (e - 1) < r \<or> (r = 2 ^ (e - 1) \<and> odd q) then (q + 1) * 2 ^ e
            else q * 2 ^ e))"

definition Number :: "string \<Rightarrow> nat" where
  "Number s = to_double (to_number s)"

fun Number_toString :: "nat \<Rightarrow> string" where
  "Number_toString n =
     (if n < 10 then [digit_char n] else Number_toString (n div 10) @ [digit_char (n mod 10)])"

declare Number_toString.simps [simp del]

section \<open>The semantic-versioning dependency\<close>

text \<open>
  Modelled from the spec: the semantic-versioning parser and comparator that
  \<open>parseVersion\<close> and \<open>compareVersions\<close> delegate to. They are the npm package
  \<open>semver\<close>, which the source imports and does not contain; the spec names them only as
  a semantic-versioning parser and a standard comparator, so the details below are those
  of that package (version 7): its \<open>SemVer\<close> class, its \<open>parse\<close> and \<open>compare\<close>
  functions and its strict \<open>FULL\<close> pattern. The \<open>loose\<close> option is left
  out, since the manager never sets it. Where the package converts a string of digits
  with \<open>+\<close>, the model takes the nearest double (\<open>Number\<close>).
\<close>

definition MAX_LENGTH :: nat where
  "MAX_LENGTH = 256"

definition MAX_SAFE_INTEGER :: nat where
  "MAX_SAFE_INTEGER = 9007199254740991"

text \<open>The character classes \<open>[a-zA-Z-]\<close> and \<open>[a-zA-Z0-9-]\<close>.\<close>

definition is_letterdash :: "char \<Rightarrow> bool" where
  "is_letterdash c =
     (let n = (of_char c :: nat) in (97 \<le> n \<and> n \<le> 122) \<or> (65 \<le> n \<and> n \<le> 90) \<or> n = 45)"

definition is_letterdashnumber :: "char \<Rightarrow> bool" where
  "is_letterdashnumber c = (is_letterdash c \<or> is_digit c)"

text \<open>\<open>0|[1-9]\d*\<close>, matched against a whole string.\<close>

fun NUMERICIDENTIFIER :: "string \<Rightarrow> bool" where
  "NUMERICIDENTIFIER [] = False"
| "NUMERICIDENTIFIER (c # cs) =
     (if c = CHR ''0'' then cs = [] else is_digit c \<and> list_all is_digit cs)"

text \<open>\<open>\d*[a-zA-Z-][a-zA-Z0-9-]*\<close>, matched against a whole string.\<close>

definition NONNUMERICIDENTIFIER :: "string \<Rightarrow> bool" where
  "NONNUMERICIDENTIFIER s =
     (case dropWhile is_digit s of
        [] \<Rightarrow> False
      | c # cs \<Rightarrow> is_letterdash c \<and> list_all is_letterdashnumber cs)"

definition PRERELEASEIDENTIFIER :: "string \<Rightarrow> bool" where
  "PRERELEASEIDENTIFIER s = (NONNUMERICIDENTIFIER s \<or> NUMERICIDENTIFIER s)"

definition BUILDIDENTIFIER :: "string \<Rightarrow> bool" where
  "BUILDIDENTIFIER s = (s \<noteq> [] \<and> list_all is_letterdashnumber s)"

text \<open>
  The pattern \<open>FULL\<close> is \<open>^v?(N)\.(N)\.(N)(?:-(P(?:\.P)*))?(?:\+(B(?:\.B)*))?$\<close> with
  \<open>N\<close>, \<open>P\<close>, \<open>B\<close> the numeric, prerelease and build identifiers. A numeric identifier
  is followed by a character that is not a digit, so it is the longest run of digits;
  the prerelease part contains no \<open>+\<close>, so it ends at the first one. The match returns the
  five groups, the last two optional.
\<close>

definition match_numeric :: "string \<Rightarrow> (string \<times> string) option" where
  "match_numeric s =
     (if NUMERICIDENTIFIER (takeWhile is_digit s)
      then Some (takeWhile is_digit s, dropWhile is_digit s) else None)"

fun match_dot :: "string \<Rightarrow> string option" where
  "match_dot [] = None"
| "match_dot (c # cs) = (if c = CHR ''.'' then Some cs else None)"

fun match_build :: "string \<Rightarrow> string option option" where
  "match_build [] = Some None"
| "match_build (c # b) =
     (if c = CHR ''+'' \<and> list_all BUILDIDENTIFIER (split CHR ''.'' b) then Some (Some b)
      else None)"

fun match_tail :: "string \<Rightarrow> (string option \<times> string option) option" where
  "match_tail [] = Some (None, None)"
| "match_tail (c # r) =
     (if c = CHR ''-'' then
        (let p = takeWhile (\<lambda>x. x \<noteq> CHR ''+'') r
         in if list_all PRERELEASEIDENTIFIER (split CHR ''.'' p)
            then (case match_build (dropWhile (\<lambda>x. x \<noteq> CHR ''+'') r) of
                    None \<Rightarrow> None
                  | Some b \<Rightarrow> Some (Some p, b))
            else None)
      else (case match_build (c # r) of None \<Rightarrow> None | Some b \<Rightarrow> Some (None, b)))"

definition match_FULL ::
  "string \<Rightarrow> (string \<times> string \<times> string \<times> string option \<times> string option) option" where
  "match_FULL s =
     (case match_numeric (replace_v s) of
        None \<Rightarrow> None
      | Some (m1, r1) \<Rightarrow>
     (case match_dot r1 of
        None \<Rightarrow> None
      | Some r1' \<Rightarrow>
     (case match_numeric r1' of
        None \<Rightarrow> None
      | Some (m2, r2) \<Rightarrow>
     (case match_dot r2 of
        None \<Rightarrow> None
      | Some r2' \<Rightarrow>
     (case match_numeric r2' of
        None \<Rightarrow> None
      | Some (m3, r3) \<Rightarrow>
     (case match_tail r3 of
        None \<Rightarrow> None
      | Some (m4, m5) \<Rightarrow> Some (m1, m2, m3, m4, m5)))))))"

text \<open>
  A prerelease identifier is kept as a number when it is all digits and below
  \<open>MAX_SAFE_INTEGER\<close>, and as a string otherwise.
\<close>

datatype ident = Num nat | Str string

definition numberify :: "string \<Rightarrow> ident" where
  "numberify s =
     (if s \<noteq> [] \<and> list_all is_digit s \<and> Number s < MAX_SAFE_INTEGER
      then Num (Number s) else Str s)"

fun ident_toString :: "ident \<Rightarrow> string" where
  "ident_toString (Num n) = Number_toString n"
| "ident_toString (Str s) = s"

record SemVer =
  raw :: string
  major :: nat
  minor :: nat
  patch :: nat
  prerelease :: "ident list"
  build :: "string list"
  version :: string

text \<open>\<open>format()\<close>: the build identifiers are not part of the version string.\<close>

definition format :: "nat \<Rightarrow> nat \<Rightarrow> nat \<Rightarrow> ident list \<Rightarrow> string" where
  "format ma mi pa pre =
     Number_toString ma @ ''.'' @ Number_toString mi @ ''.'' @ Number_toString pa @
     (if pre \<noteq> [] then ''-'' @ join ''.'' (map ident_toString pre) else [])"

text \<open>The constructor \<open>new SemVer(version)\<close>; it throws a \<open>TypeError\<close> on a bad string.\<close>

definition SemVer_new :: "string \<Rightarrow> error + SemVer" where
  "SemVer_new v =
     (if length v > MAX_LENGTH
      then Inl (TypeError ''version is longer than 256 characters'')
      else case match_FULL (trim v) of
        None \<Rightarrow> Inl (TypeError (''Invalid Version: '' @ v))
      | Some (m1, m2, m3, m4, m5) \<Rightarrow>
          if Number m1 > MAX_SAFE_INTEGER then Inl (TypeError ''Invalid major version'')
          else if Number m2 > MAX_SAFE_INTEGER then Inl (TypeError ''Invalid minor version'')
          else if Number m3 > MAX_SAFE_INTEGER then Inl (TypeError ''Invalid patch version'')
          else
            (let pre = (case m4 of None \<Rightarrow> [] | Some p \<Rightarrow> map numberify (split CHR ''.'' p));
                 bld = (case m5 of None \<Rightarrow> [] | Some b \<Rightarrow> split CHR ''.'' b)
             in Inr \<lparr> raw = v, major = Number m1, minor = Number m2,
                      patch = Number m3, prerelease = pre, build = bld,
                      version = format (Number m1) (Number m2) (Number m3) pre \<rparr>))"

text \<open>
  \<open>parse(version, options, throwErrors = false)\<close>: the constructor's error is caught and
  turned into \<open>null\<close> unless \<open>throwErrors\<close> is set.
\<close>

definition parse :: "string \<Rightarrow> bool \<Rightarrow> error + SemVer option" where
  "parse v throwErrors =
     (case SemVer_new v of
        Inr sv \<Rightarrow> Inr (Some sv)
      | Inl er \<Rightarrow> if \<not> throwErrors then Inr None else Inl er)"

text \<open>
  \<open>compareIdentifiers\<close>: two numeric identifiers are converted with \<open>+\<close> and compared as
  numbers (an all-digit identifier kept as a string goes through \<open>Number\<close>, so two of
  them that round to the same double compare equal), a numeric one is below a
  non-numeric one, and two non-numeric ones are compared as strings, code unit by code
  unit.
\<close>

fun string_less :: "string \<Rightarrow> string \<Rightarrow> bool" where
  "string_less [] [] = False"
| "string_less [] (y # ys) = True"
| "string_less (x # xs) [] = False"
| "string_less (x # xs) (y # ys) =
     ((of_char x :: nat) < of_char y \<or> (x = y \<and> string_less xs ys))"

fun is_numeric :: "ident \<Rightarrow> bool" where
  "is_numeric (Num n) = True"
| "is_numeric (Str s) = (s \<noteq> [] \<and> list_all is_digit s)"

fun ident_number :: "ident \<Rightarrow> nat" where
  "ident_number (Num n) = n"
| "ident_number (Str s) = Number s"

definition compareIdentifiers :: "ident \<Rightarrow> ident \<Rightarrow> int" where
  "compareIdentifiers a b =
     (if is_numeric a \<and> is_numeric b then
        (if ident_number a = ident_number b then 0
         else if ident_number a < ident_number b then -1 else 1)
      else if a = b then 0
      else if is_numeric a \<and> \<not> is_numeric b then -1
      else if is_numeric b \<and> \<not> is_numeric a then 1
      else if string_less (ident_toString a) (ident_toString b) then -1
      else 1)"

definition compareMain :: "SemVer \<Rightarrow> SemVer \<Rightarrow> int" where
  "compareMain a b =
     (if compareIdentifiers (Num (major a)) (Num (major b)) \<noteq> 0
      then compareIdentifiers (Num (major a)) (Num (major b))
      else if compareIdentifiers (Num (minor a)) (Num (minor b)) \<noteq> 0
      then compareIdentifiers (Num (minor a)) (Num (minor b))
      else compareIdentifiers (Num (patch a)) (Num (patch b)))"

text \<open>The loop of \<open>comparePre\<close> over the two identifier lists, index by index.\<close>

fun comparePre_loop :: "ident list \<Rightarrow> ident list \<Rightarrow> int" where
  "comparePre_loop [] [] = 0"
| "comparePre_loop (a # as) [] = 1"
| "comparePre_loop [] (b # bs) = -1"
| "comparePre_loop (a # as) (b # bs) =
     (if a = b then comparePre_loop as bs else compareIdentifiers a b)"

definition comparePre :: "SemVer \<Rightarrow> SemVer \<Rightarrow> int" where
  "comparePre a b =
     (if prerelease a \<noteq> [] \<and> prerelease b = [] then -1
      else if prerelease a = [] \<and> prerelease b \<noteq> [] then 1
      else if prerelease a = [] \<and> prerelease b = [] then 0
      else comparePre_loop (prerelease a) (prerelease b))"

definition SemVer_compare :: "SemVer \<Rightarrow> SemVer \<Rightarrow> int" where
  "SemVer_compare a b =
     (if version b = version a then 0
      else if compareMain a b \<noteq> 0 then compareMain a b
      else comparePre a b)"

text \<open>\<open>compare(a, b)\<close> is \<open>new SemVer(a).compare(new SemVer(b))\<close>.\<close>

definition compare :: "string \<Rightarrow> string \<Rightarrow> error + int" where
  "compare a b =
     (case SemVer_new a of
        Inl er \<Rightarrow> Inl er
      | Inr sa \<Rightarrow>
          (case SemVer_new b of
             Inl er \<Rightarrow> Inl er
           | Inr sb \<Rightarrow> Inr (SemVer_compare sa sb)))"

section \<open>Semantic Versioning 2.0.0\<close>

text \<open>
  What the specification calls a valid semantic version, written from the grammar of
  Semantic Versioning 2.0.0 and not from the parser: a version core of three
  dot-separated numeric identifiers without leading zeros; then, optionally, a hyphen and
  dot-separated prerelease identifiers (non-empty, of letters, digits and hyphens, the
  all-digit ones without leading zeros); then, optionally, a plus sign and dot-separated
  build identifiers (non-empty, of letters, digits and hyphens). The build part starts at
  the first plus sign and the prerelease part at the first hyphen before it.
\<close>

definition numeric_identifier :: "string \<Rightarrow> bool" where
  "numeric_identifier s =
     (s \<noteq> [] \<and> list_all is_digit s \<and> (length s = 1 \<or> hd s \<noteq> CHR ''0''))"

definition alphanumeric_or_hyphen :: "string \<Rightarrow> bool" where
  "alphanumeric_or_hyphen s = (s \<noteq> [] \<and> list_all is_letterdashnumber s)"

definition prerelease_identifier :: "string \<Rightarrow> bool" where
  "prerelease_identifier s =
     (alphanumeric_or_hyphen s \<and> (numeric_identifier s \<or> \<not> list_all is_digit s))"

fun after_first :: "char \<Rightarrow> string \<Rightarrow> string option" where
  "after_first sep [] = None"
| "after_first sep (c # cs) = (if c = sep then Some cs else after_first sep cs)"

definition version_core :: "string \<Rightarrow> bool" where
  "version_core s =
     (case split CHR ''.'' s of
        [a, b, c] \<Rightarrow> numeric_identifier a \<and> numeric_identifier b \<and> numeric_identifier c
      | _ \<Rightarrow> False)"

definition valid_semantic_version :: "string \<Rightarrow> bool" where
  "valid_semantic_version s =
     (let main = takeWhile (\<lambda>x. x \<noteq> CHR ''+'') s;
          build_part = after_first CHR ''+'' s;
          core = takeWhile (\<lambda>x. x \<noteq> CHR ''-'') main;
          prerelease_part = after_first CHR ''-'' main
      in version_core core \<and>
         (case prerelease_part of
            None \<Rightarrow> True
          | Some p \<Rightarrow> list_all prerelease_identifier (split CHR ''.'' p)) \<and>
         (case build_part of
            None \<Rightarrow> True
          | Some b \<Rightarrow> list_all alphanumeric_or_hyphen (split CHR ''.'' b)))"

section \<open>The host: processes, file system, platform\<close>

text \<open>
  What the manager reads from outside the program is gathered in one record: the result
  of each child process (\<open>execa(file, args, {shell})\<close> gives the captured standard
  output or is rejected), of \<open>fs.pathExists\<close> and \<open>fs.readdir\<close> with
  \<open>withFileTypes\<close>, the user's home directory, \<open>path.join\<close>, and the
  architecture and platform of the process. A directory argument of \<open>None\<close> is the
  value \<open>undefined\<close>.
\<close>

record dirent =
  name :: string
  isDirectory :: bool

record host =
  execa :: "string \<Rightarrow> string list \<Rightarrow> bool \<Rightarrow> error + string"
  pathExists :: "string option \<Rightarrow> error + bool"
  readdir :: "string option \<Rightarrow> error + dirent list"
  homedir :: string
  path_join :: "string list \<Rightarrow> string"
  arch :: string
  platform :: string

section \<open>The manager's types\<close>

record NodeVersion =
  version :: string
  major :: nat
  minor :: nat
  patch :: nat
  lts :: "string option optional"
  date :: "string optional"

record InstalledNodeVersion = NodeVersion +
  path :: string
  current :: bool
  default_flag :: bool

record NodeManagerConfig =
  installDir :: "string optional"
  mirror :: "string optional"
  proxy :: "string optional"
  verbose :: "bool optional"

record NodeEnvironment =
  nodeVersion :: string
  npmVersion :: string
  nodePath :: string
  npmPath :: string
  env_arch :: string
  env_platform :: string

record NodeManager =
  config :: NodeManagerConfig

section \<open>The constructor\<close>

text \<open>
  \<open>a || d\<close> on an optional string is \<open>d\<close> when \<open>a\<close> is \<open>undefined\<close> or empty;
  \<open>a ?? d\<close> is \<open>d\<close> only when \<open>a\<close> is \<open>undefined\<close>. The spread \<open>...config\<close>, written
  after the three computed properties, copies every property that \<open>config\<close> has, also one
  whose value is \<open>undefined\<close>, over the property computed before it.
\<close>

definition or_default :: "string optional \<Rightarrow> string \<Rightarrow> string" where
  "or_default a d = (case get a of None \<Rightarrow> d | Some s \<Rightarrow> if s = [] then d else s)"

definition nullish_default :: "'a optional \<Rightarrow> 'a \<Rightarrow> 'a" where
  "nullish_default a d = (case get a of None \<Rightarrow> d | Some x \<Rightarrow> x)"

fun spread :: "'a optional \<Rightarrow> 'a optional \<Rightarrow> 'a optional" where
  "spread before Absent = before"
| "spread before Undefined = Undefined"
| "spread before (Value x) = Value x"

definition NodeManager_new :: "host \<Rightarrow> NodeManagerConfig \<Rightarrow> NodeManager" where
  "NodeManager_new h cfg =
     \<lparr> config =
         \<lparr> installDir =
             spread (Value (or_default (installDir cfg)
                              (path_join h [homedir h, ''.ldesign'', ''node''])))
                    (installDir cfg),
           mirror = spread (Value (or_default (mirror cfg) ''https://nodejs.org/dist''))
                           (mirror cfg),
           proxy = spread Absent (proxy cfg),
           verbose = spread (Value (nullish_default (verbose cfg) False)) (verbose cfg) \<rparr> \<rparr>"

text \<open>\<open>createNodeManager(config?)\<close>: a missing argument is the empty object.\<close>

definition empty_config :: NodeManagerConfig where
  "empty_config = \<lparr> installDir = Absent, mirror = Absent, proxy = Absent, verbose = Absent \<rparr>"

fun createNodeManager :: "host \<Rightarrow> NodeManagerConfig option \<Rightarrow> NodeManager" where
  "createNodeManager h None = NodeManager_new h empty_config"
| "createNodeManager h (Some cfg) = NodeManager_new h cfg"

section \<open>getCurrentEnvironment\<close>

text \<open>\<open>p.catch(() => q)\<close>: the second promise is started only when the first is rejected.\<close>

fun catch_with :: "error + 'a \<Rightarrow> error + 'a \<Rightarrow> error + 'a" where
  "catch_with (Inr x) q = Inr x"
| "catch_with (Inl e) q = q"

text \<open>\<open>s.split('\n')[0].trim()\<close>; an empty array would make \<open>[0]\<close> undefined.\<close>

definition first_line :: "string \<Rightarrow> error + string" where
  "first_line s =
     (case split (CHR 0x0A) s of
        [] \<Rightarrow> Inl (TypeError ''Cannot read properties of undefined (reading trim)'')
      | l # ls \<Rightarrow> Inr (trim l))"

definition getCurrentEnvironment_try :: "host \<Rightarrow> error + NodeEnvironment" where
  "getCurrentEnvironment_try h =
     (case execa h ''node'' [''--version''] False of
        Inl e \<Rightarrow> Inl e
      | Inr nodeVersion' \<Rightarrow>
     (case execa h ''npm'' [''--version''] False of
        Inl e \<Rightarrow> Inl e
      | Inr npmVersion' \<Rightarrow>
     (case catch_with (execa h ''which'' [''node''] True) (execa h ''where'' [''node''] True) of
        Inl e \<Rightarrow> Inl e
      | Inr nodePath' \<Rightarrow>
     (case catch_with (execa h ''which'' [''npm''] True) (execa h ''where'' [''npm''] True) of
        Inl e \<Rightarrow> Inl e
      | Inr npmPath' \<Rightarrow>
     (case first_line nodePath' of
        Inl e \<Rightarrow> Inl e
      | Inr np \<Rightarrow>
     (case first_line npmPath' of
        Inl e \<Rightarrow> Inl e
      | Inr pp \<Rightarrow>
          Inr \<lparr> nodeVersion = trim nodeVersion', npmVersion = trim npmVersion',
                 nodePath = np, npmPath = pp,
                 env_arch = arch h, env_platform = platform h \<rparr>))))))"

text \<open>The \<open>try\<close>/\<open>catch\<close> around the body rethrows every error, wrapped.\<close>

definition getCurrentEnvironment :: "host \<Rightarrow> error + NodeEnvironment" where
  "getCurrentEnvironment h =
     (case getCurrentEnvironment_try h of
        Inl e \<Rightarrow> Inl (Error (''Failed to get Node environment: '' @ error_toString e))
      | Inr env \<Rightarrow> Inr env)"

section \<open>parseVersion and compareVersions\<close>

definition parseVersion :: "string \<Rightarrow> error + NodeVersion option" where
  "parseVersion versionStr =
     (case parse (replace_v versionStr) False of
        Inl e \<Rightarrow> Inl e
      | Inr None \<Rightarrow> Inr None
      | Inr (Some parsed) \<Rightarrow>
          Inr (Some \<lparr> version = ''v'' @ SemVer.version parsed,
                       major = SemVer.major parsed,
                       minor = SemVer.minor parsed,
                       patch = SemVer.patch parsed,
                       lts = Absent, date = Absent \<rparr>))"

definition compareVersions :: "string \<Rightarrow> string \<Rightarrow> error + int" where
  "compareVersions v1 v2 = compare (replace_v v1) (replace_v v2)"

section \<open>getInstalledVersions and isVersionInstalled\<close>

text \<open>
  \<open>Array.prototype.sort(comparefn)\<close> with a consistent comparator gives the one stable
  sorted arrangement; with an inconsistent one the language leaves the order to the
  engine. The model is the stable insertion sort: the elements are taken from left to
  right, and each one moves left past the elements that the comparator puts it strictly
  before. \<open>sort_insert\<close> works on the sorted part in reverse, its last element first.
  The comparator can throw, which ends the sort. (Node's engine takes the leading run of
  the array and inserts the rest by binary search; on the listings evaluated below, a run
  that is the whole array, it gives the same result.)
\<close>

fun sort_insert :: "('a \<Rightarrow> 'a \<Rightarrow> error + int) \<Rightarrow> 'a \<Rightarrow> 'a list \<Rightarrow> error + 'a list" where
  "sort_insert cmp x [] = Inr [x]"
| "sort_insert cmp x (y # ys) =
     (case cmp x y of
        Inl e \<Rightarrow> Inl e
      | Inr c \<Rightarrow>
          if c < 0
          then (case sort_insert cmp x ys of Inl e \<Rightarrow> Inl e | Inr zs \<Rightarrow> Inr (y # zs))
          else Inr (x # y # ys))"

fun sort_from :: "('a \<Rightarrow> 'a \<Rightarrow> error + int) \<Rightarrow> 'a list \<Rightarrow> 'a list \<Rightarrow> error + 'a list" where
  "sort_from cmp sorted_rev [] = Inr (rev sorted_rev)"
| "sort_from cmp sorted_rev (x # xs) =
     (case sort_insert cmp x sorted_rev of
        Inl e \<Rightarrow> Inl e
      | Inr sorted_rev' \<Rightarrow> sort_from cmp sorted_rev' xs)"

definition Array_sort :: "('a \<Rightarrow> 'a \<Rightarrow> error + int) \<Rightarrow> 'a list \<Rightarrow> error + 'a list" where
  "Array_sort cmp xs = sort_from cmp [] xs"

text \<open>\<open>path.join(installDir, entry.name)\<close> throws when \<open>installDir\<close> is not a string.\<close>

definition join_installDir :: "host \<Rightarrow> string option \<Rightarrow> string \<Rightarrow> error + string" where
  "join_installDir h dir n =
     (case dir of
        None \<Rightarrow> Inl (TypeError ''The paths[0] argument must be of type string. Received undefined'')
      | Some d \<Rightarrow> Inr (path_join h [d, n]))"

text \<open>\<open>currentEnv?.nodeVersion === entry.name\<close>, with \<open>currentEnv\<close> possibly \<open>null\<close>.\<close>

definition isCurrent :: "NodeEnvironment option \<Rightarrow> string \<Rightarrow> bool" where
  "isCurrent currentEnv n =
     (case currentEnv of None \<Rightarrow> False | Some env \<Rightarrow> nodeVersion env = n)"

text \<open>The \<open>for\<close> loop over the directory entries; \<open>versions\<close> is the array it pushes to.\<close>

fun for_entries ::
  "host \<Rightarrow> string option \<Rightarrow> NodeEnvironment option \<Rightarrow> InstalledNodeVersion list \<Rightarrow>
   dirent list \<Rightarrow> error + InstalledNodeVersion list" where
  "for_entries h dir currentEnv versions [] = Inr versions"
| "for_entries h dir currentEnv versions (entry # entries) =
     (if isDirectory entry \<and> startsWith (name entry) ''v'' then
        (case parseVersion (name entry) of
           Inl e \<Rightarrow> Inl e
         | Inr None \<Rightarrow> for_entries h dir currentEnv versions entries
         | Inr (Some versionInfo) \<Rightarrow>
             (case join_installDir h dir (name entry) of
                Inl e \<Rightarrow> Inl e
              | Inr versionPath \<Rightarrow>
                  for_entries h dir currentEnv
                    (versions @
                     [\<lparr> version = version versionInfo, major = major versionInfo,
                         minor = minor versionInfo, patch = patch versionInfo,
                         lts = lts versionInfo, date = date versionInfo,
                         path = versionPath,
                         current = isCurrent currentEnv (name entry),
                         default_flag = False \<rparr>])
                    entries))
      else for_entries h dir currentEnv versions entries)"

definition getInstalledVersions_try ::
  "host \<Rightarrow> NodeManager \<Rightarrow> error + InstalledNodeVersion list" where
  "getInstalledVersions_try h this =
     (case pathExists h (get (installDir (config this))) of
        Inl e \<Rightarrow> Inl e
      | Inr exists \<Rightarrow>
          if \<not> exists then Inr []
          else
            (case readdir h (get (installDir (config this))) of
               Inl e \<Rightarrow> Inl e
             | Inr entries \<Rightarrow>
                 (case for_entries h (get (installDir (config this)))
                         (case getCurrentEnvironment h of Inl e \<Rightarrow> None | Inr env \<Rightarrow> Some env)
                         [] entries of
                    Inl e \<Rightarrow> Inl e
                  | Inr versions \<Rightarrow>
                      Array_sort (\<lambda>a b. compareVersions (version b) (version a)) versions)))"

text \<open>
  The \<open>catch\<close> block returns the empty array for every error of the body (and writes
  to the console when \<open>verbose\<close> is set, which is not part of the result).
\<close>

definition getInstalledVersions ::
  "host \<Rightarrow> NodeManager \<Rightarrow> error + InstalledNodeVersion list" where
  "getInstalledVersions h this =
     (case getInstalledVersions_try h this of
        Inl e \<Rightarrow> Inr []
      | Inr versions \<Rightarrow> Inr versions)"

definition isVersionInstalled :: "host \<Rightarrow> NodeManager \<Rightarrow> string \<Rightarrow> error + bool" where
  "isVersionInstalled h this v =
     (case getInstalledVersions h this of
        Inl e \<Rightarrow> Inl e
      | Inr installedVersions \<Rightarrow> Inr (list_ex (\<lambda>x. version x = v) installedVersions))"

section \<open>Sort keys\<close>







text \<open>
  The element that one turn of the loop of \<open>getInstalledVersions\<close> pushes for a directory
  entry, if it pushes one, when the install directory is the string \<open>d\<close>.
\<close>

definition pushed :: "host \<Rightarrow> string \<Rightarrow> NodeEnvironment option \<Rightarrow> dirent \<Rightarrow> InstalledNodeVersion option" where
  "pushed h d currentEnv entry =
     (if isDirectory entry \<and> startsWith (name entry) ''v'' then
        (case parseVersion (name entry) of
           Inr (Some versionInfo) \<Rightarrow>
             Some \<lparr> version = version versionInfo, major = major versionInfo,
                     minor = minor versionInfo, patch = patch versionInfo,
                     lts = lts versionInfo, date = date versionInfo,
                     path = path_join h [d, name entry],
                     current = isCurrent currentEnv (name entry),
                     default_flag = False \<rparr>
         | _ \<Rightarrow> None)
      else None)"

section \<open>Example hosts\<close>

text \<open>
  A host with Node 20 and npm on the path and an install directory that holds the
  directories \<open>v18.0.0\<close>, \<open>v20.0.0\<close> and \<open>not-a-version\<close> and a plain file \<open>v16.0.0\<close>;
  the same host without a \<open>node\<close> executable; and the same host where neither
  \<open>which\<close> nor \<open>where\<close> can be run.
\<close>

definition example_entries :: "dirent list" where
  "example_entries =
     [\<lparr> name = ''v18.0.0'', isDirectory = True \<rparr>,
      \<lparr> name = ''v20.0.0'', isDirectory = True \<rparr>,
      \<lparr> name = ''not-a-version'', isDirectory = True \<rparr>,
      \<lparr> name = ''v16.0.0'', isDirectory = False \<rparr>]"

definition example_execa :: "string \<Rightarrow> string list \<Rightarrow> bool \<Rightarrow> error + string" where
  "example_execa file args shell =
     (if file = ''node'' \<and> args = [''--version''] then Inr ''v20.0.0''
      else if file = ''npm'' \<and> args = [''--version''] then Inr ''10.2.3''
      else if file = ''which'' \<and> args = [''node'']
        then Inr (''/usr/bin/node'' @ [CHR 0x0A] @ ''/opt/node/bin/node'')
      else if file = ''which'' \<and> args = [''npm''] then Inr ''/usr/bin/npm''
      else Inl (Error (''Command failed: '' @ file)))"

definition example_host :: host where
  "example_host =
     \<lparr> execa = example_execa,
       pathExists = (\<lambda>p. Inr (p = Some ''/home/u/.ldesign/node'')),
       readdir = (\<lambda>p. if p = Some ''/home/u/.ldesign/node'' then Inr example_entries
                       else Inl (Error ''ENOENT: no such file or directory'')),
       homedir = ''/home/u'',
       path_join = join ''/'',
       arch = ''x64'',
       platform = ''linux'' \<rparr>"

definition host_without_node :: host where
  "host_without_node =
     example_host \<lparr> execa := (\<lambda>file args shell. Inl (Error (''spawn '' @ file @ '' ENOENT''))) \<rparr>"

definition host_without_lookup :: host where
  "host_without_lookup =
     example_host
       \<lparr> execa := (\<lambda>file args shell.
            if file = ''which'' \<or> file = ''where''
            then Inl (Error (''Command failed: '' @ file))
            else example_execa file args shell) \<rparr>"

definition host_unreadable :: host where
  "host_unreadable =
     example_host \<lparr> readdir := (\<lambda>p. Inl (Error ''EACCES: permission denied'')) \<rparr>"



definition example_manager :: NodeManager where
  "example_manager = NodeManager_new example_host empty_config"

section \<open>Digits and decimal strings\<close>

lemma of_char_digit_char: "d < 10 \<Longrightarrow> (of_char (digit_char d) :: nat) = 48 + d"
  by (simp add: digit_char_def)

lemma is_digit_digit_char: "d < 10 \<Longrightarrow> is_digit (digit_char d)"
  by (simp add: is_digit_def of_char_digit_char)

lemma digit_value_digit_char: "d < 10 \<Longrightarrow> digit_value (digit_char d) = d"
  by (simp add: digit_value_def of_char_digit_char)

lemma digit_value_less: "is_digit c \<Longrightarrow> digit_value c < 10"
  by (auto simp: is_digit_def digit_value_def)

lemma digit_char_digit_value: "is_digit c \<Longrightarrow> digit_char (digit_value c) = c"
  by (simp add: is_digit_def digit_value_def digit_char_def)

lemma char_of_48: "char_of (48::nat) = CHR ''0''"
  by (simp add: char_of_eq_iff)

lemma digit_char_0: "digit_char 0 = CHR ''0''"
  by (simp add: digit_char_def char_of_48)

lemma digit_value_zero: "is_digit c \<Longrightarrow> digit_value c = 0 \<Longrightarrow> c = CHR ''0''"
proof -
  assume a: "is_digit c" "digit_value c = 0"
  have "c = digit_char (digit_value c)" using a(1) by (simp add: digit_char_digit_value)
  also have "\<dots> = CHR ''0''" using a(2) by (simp add: digit_char_0)
  finally show ?thesis .
qed

lemma not_digit_chars:
  "\<not> is_digit CHR ''.''" "\<not> is_digit CHR ''-''" "\<not> is_digit CHR ''+''" "\<not> is_digit CHR ''v''"
  "is_digit CHR ''0''"
  by (simp_all add: is_digit_def)

lemma to_number_snoc: "to_number (s @ [c]) = 10 * to_number s + digit_value c"
  by (simp add: to_number_def)

lemma to_number_Number_toString: "to_number (Number_toString n) = n"
proof (induction n rule: Number_toString.induct)
  case (1 n)
  show ?case
  proof (cases "n < 10")
    case True
    then show ?thesis
      by (subst Number_toString.simps) (simp add: to_number_def digit_value_digit_char)
  next
    case False
    then show ?thesis using 1
      by (subst Number_toString.simps) (simp add: to_number_snoc digit_value_digit_char)
  qed
qed

lemma Number_toString_digits: "list_all is_digit (Number_toString n)"
proof (induction n rule: Number_toString.induct)
  case (1 n)
  show ?case
  proof (cases "n < 10")
    case True
    then show ?thesis
      by (subst Number_toString.simps) (simp add: is_digit_digit_char)
  next
    case False
    then show ?thesis using 1
      by (subst Number_toString.simps) (simp add: is_digit_digit_char)
  qed
qed

lemma Number_toString_nonempty: "Number_toString n \<noteq> []"
  by (subst Number_toString.simps) simp

lemma Number_toString_hd_zero: "hd (Number_toString n) = CHR ''0'' \<Longrightarrow> n = 0"
proof (induction n rule: Number_toString.induct)
  case (1 n)
  show ?case
  proof (cases "n < 10")
    case True
    with "1.prems" have "digit_char n = CHR ''0''"
      by (subst (asm) Number_toString.simps) simp
    then have "(of_char (digit_char n) :: nat) = of_char CHR ''0''" by simp
    then show ?thesis using True by (simp add: of_char_digit_char)
  next
    case False
    with "1.prems" have "hd (Number_toString (n div 10)) = CHR ''0''"
      by (subst (asm) Number_toString.simps) (simp add: Number_toString_nonempty)
    with 1 False have "n div 10 = 0" by simp
    with False show ?thesis by simp
  qed
qed

lemma NUMERICIDENTIFIER_iff:
  "NUMERICIDENTIFIER s \<longleftrightarrow> s \<noteq> [] \<and> list_all is_digit s \<and> (hd s = CHR ''0'' \<longrightarrow> s = ''0'')"
  by (cases s) (auto simp: not_digit_chars)

lemma NUMERICIDENTIFIER_Number_toString: "NUMERICIDENTIFIER (Number_toString n)"
proof -
  have "hd (Number_toString n) = CHR ''0'' \<Longrightarrow> Number_toString n = ''0''"
  proof -
    assume "hd (Number_toString n) = CHR ''0''"
    then have "n = 0" by (rule Number_toString_hd_zero)
    then show ?thesis by (subst Number_toString.simps) (simp add: digit_char_0)
  qed
  then show ?thesis
    by (auto simp: NUMERICIDENTIFIER_iff Number_toString_digits Number_toString_nonempty)
qed

lemma to_number_foldl_ge: "a \<le> foldl (\<lambda>acc c. 10 * acc + digit_value c) a s"
proof (induction s arbitrary: a)
  case Nil
  show ?case by simp
next
  case (Cons c s)
  have "a \<le> 10 * a + digit_value c" by simp
  also have "\<dots> \<le> foldl (\<lambda>acc c. 10 * acc + digit_value c) (10 * a + digit_value c) s"
    by (rule Cons.IH)
  finally show ?case by simp
qed

lemma to_number_pos:
  assumes "s \<noteq> []" "is_digit (hd s)" "hd s \<noteq> CHR ''0''"
  shows "0 < to_number s"
proof -
  obtain c cs where s: "s = c # cs" using assms(1) by (cases s) auto
  have "digit_value c \<noteq> 0" using assms s digit_value_zero by auto
  moreover have "digit_value c \<le> to_number s"
    using to_number_foldl_ge [of "digit_value c" cs] by (simp add: s to_number_def)
  ultimately show ?thesis by simp
qed

lemma Number_toString_to_number:
  "NUMERICIDENTIFIER s \<Longrightarrow> Number_toString (to_number s) = s"
proof (induction s rule: rev_induct)
  case Nil
  then show ?case by simp
next
  case (snoc c t)
  from snoc.prems have dig: "list_all is_digit t" "is_digit c"
    by (simp_all add: NUMERICIDENTIFIER_iff)
  show ?case
  proof (cases "t = []")
    case True
    then show ?thesis using dig
      by (subst Number_toString.simps)
         (simp add: to_number_def digit_value_less digit_char_digit_value)
  next
    case False
    then have hd_eq: "hd (t @ [c]) = hd t" by simp
    from snoc.prems False have nz: "hd t \<noteq> CHR ''0''"
      by (auto simp: NUMERICIDENTIFIER_iff hd_eq)
    have num_t: "NUMERICIDENTIFIER t"
      using False dig nz by (simp add: NUMERICIDENTIFIER_iff)
    have "is_digit (hd t)" using False dig by (cases t) auto
    then have pos: "0 < to_number t" using False nz by (simp add: to_number_pos)
    have dv: "digit_value c < 10" using dig by (simp add: digit_value_less)
    have "Number_toString (to_number (t @ [c])) =
          Number_toString (to_number t) @ [digit_char (digit_value c)]"
      using pos dv by (subst Number_toString.simps) (simp add: to_number_snoc)
    then show ?thesis using snoc.IH [OF num_t] dig by (simp add: digit_char_digit_value)
  qed
qed

lemma exponent_props:
  "e \<le> exponent n e \<and> n div 2 ^ exponent n e < 2 ^ 53 \<and>
   (e < exponent n e \<longrightarrow> 2 ^ 53 \<le> n div 2 ^ (exponent n e - 1))"
proof (induction n e rule: exponent.induct)
  case (1 n e)
  show ?case
  proof (cases "n div 2 ^ e < 2 ^ 53")
    case True
    then have eq: "exponent n e = e" by (subst exponent.simps) simp
    show ?thesis unfolding eq using True by simp
  next
    case False
    then have eq: "exponent n e = exponent n (Suc e)" by (subst exponent.simps) simp
    let ?E = "exponent n (Suc e)"
    from 1 [OF False] have ih: "Suc e \<le> ?E" "n div 2 ^ ?E < 2 ^ 53"
      "Suc e < ?E \<longrightarrow> 2 ^ 53 \<le> n div 2 ^ (?E - 1)" by simp_all
    have "2 ^ 53 \<le> n div 2 ^ (?E - 1)"
    proof (cases "Suc e < ?E")
      case True
      with ih(3) show ?thesis by simp
    next
      case False
      with ih(1) have "?E - 1 = e" by simp
      then show ?thesis using \<open>\<not> n div 2 ^ e < 2 ^ 53\<close> by simp
    qed
    then show ?thesis unfolding eq using ih(1,2) by simp
  qed
qed

lemma to_double_small: "n < 2 ^ 53 \<Longrightarrow> to_double n = n"
  by (simp add: to_double_def)

lemma to_double_large:
  assumes "2 ^ 53 \<le> n"
  shows "2 ^ 53 \<le> to_double n"
proof -
  let ?e = "exponent n 0"
  let ?q = "n div 2 ^ ?e"
  from exponent_props [of 0 n] have p: "n div 2 ^ ?e < 2 ^ 53"
    "0 < ?e \<longrightarrow> 2 ^ 53 \<le> n div 2 ^ (?e - 1)" by simp_all
  have pos: "0 < ?e"
  proof (rule ccontr)
    assume "\<not> 0 < ?e"
    then have "?e = 0" by simp
    with p(1) assms show False by simp
  qed
  with p(2) have big: "(2::nat) ^ 53 \<le> n div 2 ^ (?e - 1)" by simp
  from pos have e: "?e = Suc (?e - 1)" by simp
  have "n div 2 ^ ?e = n div 2 ^ (?e - 1) div 2"
    by (subst e) (simp only: power_Suc2 div_mult2_eq)
  with big have q: "(2::nat) ^ 52 \<le> ?q" by simp
  have "(2::nat) ^ 53 = 2 ^ 52 * 2 ^ 1" by simp
  also have "\<dots> \<le> ?q * 2 ^ ?e"
  proof (rule mult_le_mono [OF q])
    from pos have "1 \<le> ?e" by simp
    then show "(2::nat) ^ 1 \<le> 2 ^ ?e" by (intro power_increasing) simp_all
  qed
  finally have low: "(2::nat) ^ 53 \<le> ?q * 2 ^ ?e" .
  also have "?q * 2 ^ ?e \<le> (?q + 1) * 2 ^ ?e" by simp
  finally have high: "(2::nat) ^ 53 \<le> (?q + 1) * 2 ^ ?e" .
  show ?thesis
    using assms low high by (simp add: to_double_def Let_def)
qed

lemma MAX_SAFE_INTEGER_eq: "MAX_SAFE_INTEGER = 2 ^ 53 - 1"
  by (simp add: MAX_SAFE_INTEGER_def)

lemma Number_safe: "to_number s \<le> MAX_SAFE_INTEGER \<Longrightarrow> Number s = to_number s"
  by (simp add: Number_def MAX_SAFE_INTEGER_eq to_double_small)

lemma Number_le_safe: "Number s \<le> MAX_SAFE_INTEGER \<Longrightarrow> to_number s \<le> MAX_SAFE_INTEGER"
proof (rule ccontr)
  assume a: "Number s \<le> MAX_SAFE_INTEGER" "\<not> to_number s \<le> MAX_SAFE_INTEGER"
  then have "2 ^ 53 \<le> to_number s" by (simp add: MAX_SAFE_INTEGER_eq)
  then have "2 ^ 53 \<le> Number s" unfolding Number_def by (rule to_double_large)
  with a(1) show False by (simp add: MAX_SAFE_INTEGER_eq)
qed

lemma Number_less_safe:
  "Number s < MAX_SAFE_INTEGER \<Longrightarrow> Number s = to_number s"
  using Number_le_safe [of s] Number_safe [of s] by simp

section \<open>Trimming, splitting, identifiers and the version pattern\<close>

lemma digit_not_whitespace: "is_digit c \<Longrightarrow> \<not> is_whitespace c"
  by (auto simp: is_digit_def is_whitespace_def)

lemma letterdashnumber_not_whitespace: "is_letterdashnumber c \<Longrightarrow> \<not> is_whitespace c"
  by (auto simp: is_letterdashnumber_def is_letterdash_def is_digit_def is_whitespace_def Let_def)

lemma letterdashnumber_not_sep:
  "is_letterdashnumber c \<Longrightarrow> c \<noteq> CHR ''+'' \<and> c \<noteq> CHR ''.''"
  by (auto simp: is_letterdashnumber_def is_letterdash_def is_digit_def Let_def)

lemma special_not_whitespace:
  "\<not> is_whitespace CHR ''.''" "\<not> is_whitespace CHR ''-''" "\<not> is_whitespace CHR ''v''"
  by (simp_all add: is_whitespace_def)

lemma trim_id: "\<forall>c\<in>set s. \<not> is_whitespace c \<Longrightarrow> trim s = s"
proof -
  assume a: "\<forall>c\<in>set s. \<not> is_whitespace c"
  have d: "dropWhile is_whitespace t = t" if "\<forall>c\<in>set t. \<not> is_whitespace c" for t
    using that by (cases t) auto
  have "dropWhile is_whitespace s = s" using a by (rule d)
  moreover have "dropWhile is_whitespace (rev s) = rev s" using a by (intro d) simp
  ultimately show ?thesis by (simp add: trim_def)
qed

lemma length_trim: "length (trim s) \<le> length s"
proof -
  have "length (trim s) \<le> length (dropWhile is_whitespace s)"
    unfolding trim_def using length_dropWhile_le [of is_whitespace "rev (dropWhile is_whitespace s)"]
    by simp
  also have "\<dots> \<le> length s" by (rule length_dropWhile_le)
  finally show ?thesis .
qed

lemma split_nonempty: "split sep s \<noteq> []"
  by (induction s) (auto split: list.splits)

lemma join_split: "join [sep] (split sep s) = s"
proof (induction s)
  case Nil
  show ?case by simp
next
  case (Cons c s)
  obtain x xs where sp: "split sep s = x # xs"
    using split_nonempty [of sep s] by (cases "split sep s") auto
  show ?case
  proof (cases "c = sep")
    case True
    then show ?thesis using Cons sp by simp
  next
    case False
    then show ?thesis using Cons sp by (cases xs) auto
  qed
qed

lemma set_split: "set s \<subseteq> insert sep (\<Union>x\<in>set (split sep s). set x)"
proof (induction s)
  case Nil
  show ?case by simp
next
  case (Cons c s)
  obtain x xs where sp: "split sep s = x # xs"
    using split_nonempty [of sep s] by (cases "split sep s") auto
  show ?case using Cons sp by auto
qed

lemma NONNUMERICIDENTIFIER_chars:
  assumes "NONNUMERICIDENTIFIER s"
  shows "s \<noteq> [] \<and> list_all is_letterdashnumber s \<and> \<not> list_all is_digit s"
proof -
  from assms obtain c cs where d: "dropWhile is_digit s = c # cs"
    and c: "is_letterdash c" and cs: "list_all is_letterdashnumber cs"
    by (auto simp: NONNUMERICIDENTIFIER_def split: list.splits)
  have s: "s = takeWhile is_digit s @ c # cs" using d by (metis takeWhile_dropWhile_id)
  have "list_all is_letterdashnumber (takeWhile is_digit s)"
    by (auto simp: list_all_iff is_letterdashnumber_def dest: set_takeWhileD)
  then have "list_all is_letterdashnumber (takeWhile is_digit s @ c # cs)"
    using c cs by (simp add: is_letterdashnumber_def)
  then have all: "list_all is_letterdashnumber s" using s by simp
  have "\<not> is_digit c" using d by (metis hd_dropWhile list.sel(1) list.distinct(1))
  moreover have "c \<in> set s" using s by (metis in_set_conv_decomp)
  ultimately have "\<not> list_all is_digit s" by (auto simp: list_all_iff)
  then show ?thesis using all s by auto
qed

lemma PRERELEASEIDENTIFIER_chars:
  "PRERELEASEIDENTIFIER s \<Longrightarrow> s \<noteq> [] \<and> list_all is_letterdashnumber s"
  unfolding PRERELEASEIDENTIFIER_def
  using NONNUMERICIDENTIFIER_chars [of s]
  by (auto simp: NUMERICIDENTIFIER_iff list_all_iff is_letterdashnumber_def)

lemma PRERELEASEIDENTIFIER_digits:
  "PRERELEASEIDENTIFIER s \<Longrightarrow> list_all is_digit s \<Longrightarrow> NUMERICIDENTIFIER s"
  unfolding PRERELEASEIDENTIFIER_def using NONNUMERICIDENTIFIER_chars [of s] by auto

lemma ident_toString_numberify: "PRERELEASEIDENTIFIER s \<Longrightarrow> ident_toString (numberify s) = s"
  by (auto simp: numberify_def Number_less_safe Number_toString_to_number
      PRERELEASEIDENTIFIER_digits)

lemma map_ident_toString_numberify:
  "list_all PRERELEASEIDENTIFIER xs \<Longrightarrow> map ident_toString (map numberify xs) = xs"
  by (induction xs) (simp_all add: ident_toString_numberify)

lemma prerelease_chars:
  assumes "list_all PRERELEASEIDENTIFIER (split CHR ''.'' q)"
  shows "\<forall>c\<in>set q. is_letterdashnumber c \<or> c = CHR ''.''"
proof
  fix c assume "c \<in> set q"
  then have "c = CHR ''.'' \<or> (\<exists>x\<in>set (split CHR ''.'' q). c \<in> set x)"
    using set_split [of q "CHR ''.''"] by auto
  then show "is_letterdashnumber c \<or> c = CHR ''.''"
    using assms PRERELEASEIDENTIFIER_chars by (auto simp: list_all_iff)
qed

lemma prerelease_join:
  assumes "list_all PRERELEASEIDENTIFIER (split CHR ''.'' q)"
  shows "join ''.'' (map ident_toString (map numberify (split CHR ''.'' q))) = q"
  by (simp only: map_ident_toString_numberify [OF assms] join_split)

lemma match_numeric_Some:
  "match_numeric s = Some (a, r) \<Longrightarrow> s = a @ r \<and> NUMERICIDENTIFIER a"
  by (auto simp: match_numeric_def split: if_splits)

lemma match_numeric_append:
  assumes "NUMERICIDENTIFIER a" and "r = [] \<or> \<not> is_digit (hd r)"
  shows "match_numeric (a @ r) = Some (a, r)"
proof -
  have all: "\<forall>x\<in>set a. is_digit x" using assms(1) by (simp add: NUMERICIDENTIFIER_iff list_all_iff)
  have r: "takeWhile is_digit r = []" "dropWhile is_digit r = r"
    using assms(2) by (cases r; auto)+
  have "takeWhile is_digit (a @ r) = a" using all r by (simp add: takeWhile_append2)
  moreover have "dropWhile is_digit (a @ r) = r" using all r by (simp add: dropWhile_append2)
  ultimately show ?thesis using assms(1) by (simp add: match_numeric_def)
qed

lemma match_dot_Some: "match_dot r = Some r' \<longleftrightarrow> r = CHR ''.'' # r'"
  by (cases r) auto

lemma match_build_Some:
  "match_build r = Some bd \<Longrightarrow> r = (case bd of None \<Rightarrow> [] | Some b \<Rightarrow> CHR ''+'' # b)"
  by (cases r) (auto split: if_splits)

lemma match_tail_Some:
  assumes "match_tail r = Some (p, bd)"
  shows "r = (case p of None \<Rightarrow> [] | Some q \<Rightarrow> CHR ''-'' # q) @
             (case bd of None \<Rightarrow> [] | Some b \<Rightarrow> CHR ''+'' # b) \<and>
         (case p of None \<Rightarrow> True | Some q \<Rightarrow> list_all PRERELEASEIDENTIFIER (split CHR ''.'' q))"
proof (cases r)
  case Nil
  then show ?thesis using assms by auto
next
  case (Cons c t)
  show ?thesis
  proof (cases "c = CHR ''-''")
    case True
    let ?q = "takeWhile (\<lambda>x. x \<noteq> CHR ''+'') t"
    let ?d = "dropWhile (\<lambda>x. x \<noteq> CHR ''+'') t"
    from assms Cons True have v: "list_all PRERELEASEIDENTIFIER (split CHR ''.'' ?q)"
      and mb: "match_build ?d = Some bd" and p: "p = Some ?q"
      by (auto simp: Let_def split: if_splits option.splits)
    have "t = ?q @ ?d" by simp
    then have "r = CHR ''-'' # ?q @ (case bd of None \<Rightarrow> [] | Some b \<Rightarrow> CHR ''+'' # b)"
      using Cons True match_build_Some [OF mb] by simp
    then show ?thesis using v p by simp
  next
    case False
    with assms Cons have mb: "match_build r = Some bd" and p: "p = None"
      by (auto split: option.splits simp del: match_build.simps)
    then show ?thesis using match_build_Some [OF mb] by simp
  qed
qed

lemma match_tail_prerelease:
  assumes "list_all PRERELEASEIDENTIFIER (split CHR ''.'' q)"
  shows "match_tail (CHR ''-'' # q) = Some (Some q, None)"
proof -
  have "\<forall>c\<in>set q. c \<noteq> CHR ''+''"
    using prerelease_chars [OF assms] letterdashnumber_not_sep by auto
  then have tw: "takeWhile (\<lambda>x. x \<noteq> CHR ''+'') q = q"
    and dw: "dropWhile (\<lambda>x. x \<noteq> CHR ''+'') q = []"
    by (simp_all add: takeWhile_eq_all_conv)
  show ?thesis using assms by (simp add: tw dw)
qed

section \<open>The constructor accepts its own version string\<close>

lemma NUMERICIDENTIFIER_hd: "NUMERICIDENTIFIER a \<Longrightarrow> a \<noteq> [] \<and> is_digit (hd a)"
  by (cases a) (auto simp: not_digit_chars split: if_splits)

lemma replace_v_digit: "NUMERICIDENTIFIER a \<Longrightarrow> replace_v (a @ r) = a @ r"
  by (cases a) (auto simp: not_digit_chars split: if_splits)

lemma length_replace_v: "length (replace_v s) \<le> length s"
  by (cases s) auto

lemma match_FULL_Some:
  assumes "match_FULL t = Some (a, b, c, p, bd)"
  shows "replace_v t =
           a @ ''.'' @ b @ ''.'' @ c @ (case p of None \<Rightarrow> [] | Some q \<Rightarrow> CHR ''-'' # q) @
           (case bd of None \<Rightarrow> [] | Some x \<Rightarrow> CHR ''+'' # x)"
    and "NUMERICIDENTIFIER a" and "NUMERICIDENTIFIER b" and "NUMERICIDENTIFIER c"
    and "case p of None \<Rightarrow> True | Some q \<Rightarrow> list_all PRERELEASEIDENTIFIER (split CHR ''.'' q)"
proof -
  from assms obtain r1 r1' r2 r2' r3 where
    m1: "match_numeric (replace_v t) = Some (a, r1)" and d1: "match_dot r1 = Some r1'" and
    m2: "match_numeric r1' = Some (b, r2)" and d2: "match_dot r2 = Some r2'" and
    m3: "match_numeric r2' = Some (c, r3)" and mt: "match_tail r3 = Some (p, bd)"
    by (auto simp: match_FULL_def split: option.splits)
  note n1 = match_numeric_Some [OF m1] and n2 = match_numeric_Some [OF m2]
    and n3 = match_numeric_Some [OF m3] and t = match_tail_Some [OF mt]
  from d1 d2 have e: "r1 = CHR ''.'' # r1'" "r2 = CHR ''.'' # r2'"
    by (simp_all add: match_dot_Some)
  show "NUMERICIDENTIFIER a" "NUMERICIDENTIFIER b" "NUMERICIDENTIFIER c"
    using n1 n2 n3 by simp_all
  show "case p of None \<Rightarrow> True | Some q \<Rightarrow> list_all PRERELEASEIDENTIFIER (split CHR ''.'' q)"
    using t by simp
  have "replace_v t = a @ r1" using n1 by simp
  also have "r1 = ''.'' @ b @ r2" using e n2 by simp
  also have "r2 = ''.'' @ c @ r3" using e n3 by simp
  also have "r3 = (case p of None \<Rightarrow> [] | Some q \<Rightarrow> CHR ''-'' # q) @
                  (case bd of None \<Rightarrow> [] | Some x \<Rightarrow> CHR ''+'' # x)"
    using t by simp
  finally show "replace_v t =
           a @ ''.'' @ b @ ''.'' @ c @ (case p of None \<Rightarrow> [] | Some q \<Rightarrow> CHR ''-'' # q) @
           (case bd of None \<Rightarrow> [] | Some x \<Rightarrow> CHR ''+'' # x)"
    by simp
qed

lemma match_FULL_version:
  assumes "NUMERICIDENTIFIER a" "NUMERICIDENTIFIER b" "NUMERICIDENTIFIER c"
    and "case p of None \<Rightarrow> True | Some q \<Rightarrow> list_all PRERELEASEIDENTIFIER (split CHR ''.'' q)"
  shows "match_FULL (a @ ''.'' @ b @ ''.'' @ c @
                     (case p of None \<Rightarrow> [] | Some q \<Rightarrow> CHR ''-'' # q)) =
         Some (a, b, c, p, None)"
proof -
  let ?tail = "case p of None \<Rightarrow> [] | Some q \<Rightarrow> CHR ''-'' # q"
  have r: "replace_v (a @ ''.'' @ b @ ''.'' @ c @ ?tail) = a @ ''.'' @ b @ ''.'' @ c @ ?tail"
    using assms(1) by (rule replace_v_digit)
  have m1: "match_numeric (a @ ''.'' @ b @ ''.'' @ c @ ?tail) =
            Some (a, ''.'' @ b @ ''.'' @ c @ ?tail)"
    using assms(1) by (intro match_numeric_append) (simp_all add: not_digit_chars)
  have m2: "match_numeric (b @ ''.'' @ c @ ?tail) = Some (b, ''.'' @ c @ ?tail)"
    using assms(2) by (intro match_numeric_append) (simp_all add: not_digit_chars)
  have "?tail = [] \<or> \<not> is_digit (hd ?tail)"
    by (cases p) (simp_all add: not_digit_chars)
  with assms(3) have m3: "match_numeric (c @ ?tail) = Some (c, ?tail)"
    by (rule match_numeric_append)
  have mt: "match_tail ?tail = Some (p, None)"
    using assms(4) by (cases p) (simp_all add: match_tail_prerelease del: match_tail.simps(2))
  show ?thesis
    unfolding match_FULL_def r m1 using m2 m3 mt by simp
qed

lemma format_eq:
  assumes "NUMERICIDENTIFIER a" "NUMERICIDENTIFIER b" "NUMERICIDENTIFIER c"
    and "case p of None \<Rightarrow> True | Some q \<Rightarrow> list_all PRERELEASEIDENTIFIER (split CHR ''.'' q)"
  shows "format (to_number a) (to_number b) (to_number c)
           (case p of None \<Rightarrow> [] | Some q \<Rightarrow> map numberify (split CHR ''.'' q)) =
         a @ ''.'' @ b @ ''.'' @ c @ (case p of None \<Rightarrow> [] | Some q \<Rightarrow> CHR ''-'' # q)"
proof -
  have n: "Number_toString (to_number a) = a" "Number_toString (to_number b) = b"
    "Number_toString (to_number c) = c"
    using assms(1-3) by (simp_all add: Number_toString_to_number)
  show ?thesis
  proof (cases p)
    case None
    show ?thesis unfolding format_def n None by simp
  next
    case (Some q)
    with assms(4) have v: "list_all PRERELEASEIDENTIFIER (split CHR ''.'' q)" by simp
    have ne: "map numberify (split CHR ''.'' q) \<noteq> []" by (simp add: split_nonempty)
    show ?thesis unfolding format_def n Some option.case using ne
      by (simp only: prerelease_join [OF v] if_True) simp
  qed
qed

lemma SemVer_new_Inr:
  assumes "SemVer_new s = Inr sv"
  obtains a b c p bd where
    "length s \<le> MAX_LENGTH"
    "match_FULL (trim s) = Some (a, b, c, p, bd)"
    "to_number a \<le> MAX_SAFE_INTEGER" "to_number b \<le> MAX_SAFE_INTEGER"
    "to_number c \<le> MAX_SAFE_INTEGER"
    "SemVer.major sv = to_number a" "SemVer.minor sv = to_number b"
    "SemVer.patch sv = to_number c"
    "SemVer.prerelease sv = (case p of None \<Rightarrow> [] | Some q \<Rightarrow> map numberify (split CHR ''.'' q))"
    "SemVer.version sv = format (to_number a) (to_number b) (to_number c)
        (case p of None \<Rightarrow> [] | Some q \<Rightarrow> map numberify (split CHR ''.'' q))"
proof -
  from assms have len: "length s \<le> MAX_LENGTH"
    by (auto simp: SemVer_new_def split: if_splits)
  from assms len obtain a b c p bd where m: "match_FULL (trim s) = Some (a, b, c, p, bd)"
    by (cases "match_FULL (trim s)") (auto simp: SemVer_new_def)
  from assms len m have le: "Number a \<le> MAX_SAFE_INTEGER" "Number b \<le> MAX_SAFE_INTEGER"
    "Number c \<le> MAX_SAFE_INTEGER"
    by (auto simp: SemVer_new_def split: if_splits)
  note safe = le [THEN Number_le_safe]
  note eq = safe [THEN Number_safe]
  from assms len m le have sv: "sv = \<lparr> raw = s, major = Number a, minor = Number b,
      patch = Number c,
      prerelease = (case p of None \<Rightarrow> [] | Some q \<Rightarrow> map numberify (split CHR ''.'' q)),
      build = (case bd of None \<Rightarrow> [] | Some x \<Rightarrow> split CHR ''.'' x),
      version = format (Number a) (Number b) (Number c)
        (case p of None \<Rightarrow> [] | Some q \<Rightarrow> map numberify (split CHR ''.'' q)) \<rparr>"
    by (simp add: SemVer_new_def Let_def)
  show ?thesis
    by (rule that [OF len m safe]) (simp_all add: sv eq)
qed

lemma version_chars:
  assumes "NUMERICIDENTIFIER a" "NUMERICIDENTIFIER b" "NUMERICIDENTIFIER c"
    and "case p of None \<Rightarrow> True | Some q \<Rightarrow> list_all PRERELEASEIDENTIFIER (split CHR ''.'' q)"
  shows "\<forall>x\<in>set (a @ ''.'' @ b @ ''.'' @ c @ (case p of None \<Rightarrow> [] | Some q \<Rightarrow> CHR ''-'' # q)).
           \<not> is_whitespace x"
proof -
  have n: "\<And>x. x \<in> set d \<Longrightarrow> \<not> is_whitespace x" if "NUMERICIDENTIFIER d" for d
    using that by (simp add: NUMERICIDENTIFIER_iff list_all_iff digit_not_whitespace)
  have t: "\<And>x. x \<in> set (case p of None \<Rightarrow> [] | Some q \<Rightarrow> CHR ''-'' # q) \<Longrightarrow> \<not> is_whitespace x"
  proof (cases p)
    case None
    fix x assume "x \<in> set (case p of None \<Rightarrow> [] | Some q \<Rightarrow> CHR ''-'' # q)"
    then show "\<not> is_whitespace x" using None by simp
  next
    case (Some q)
    fix x assume "x \<in> set (case p of None \<Rightarrow> [] | Some q \<Rightarrow> CHR ''-'' # q)"
    then have x: "x = CHR ''-'' \<or> x \<in> set q" using Some by simp
    from Some assms(4) have "\<forall>c\<in>set q. is_letterdashnumber c \<or> c = CHR ''.''"
      by (simp add: prerelease_chars)
    with x have "x = CHR ''-'' \<or> x = CHR ''.'' \<or> is_letterdashnumber x" by blast
    then show "\<not> is_whitespace x"
      using special_not_whitespace letterdashnumber_not_whitespace by blast
  qed
  show ?thesis
  proof
    fix x
    assume "x \<in> set (a @ ''.'' @ b @ ''.'' @ c @ (case p of None \<Rightarrow> [] | Some q \<Rightarrow> CHR ''-'' # q))"
    then have "x \<in> set a \<or> x \<in> set b \<or> x \<in> set c \<or> x = CHR ''.'' \<or>
               x \<in> set (case p of None \<Rightarrow> [] | Some q \<Rightarrow> CHR ''-'' # q)"
      by (simp only: set_append set_simps Un_iff insert_iff empty_iff) blast
    then show "\<not> is_whitespace x"
      using n [OF assms(1)] n [OF assms(2)] n [OF assms(3)] t special_not_whitespace(1)
      by blast
  qed
qed

lemma SemVer_new_version:
  assumes "SemVer_new s = Inr sv"
  shows "SemVer_new (SemVer.version sv) = Inr (sv\<lparr>raw := SemVer.version sv, build := []\<rparr>)"
proof -
  from assms obtain a b c p bd where
    len: "length s \<le> MAX_LENGTH" and
    m: "match_FULL (trim s) = Some (a, b, c, p, bd)" and
    safe: "to_number a \<le> MAX_SAFE_INTEGER" "to_number b \<le> MAX_SAFE_INTEGER"
      "to_number c \<le> MAX_SAFE_INTEGER" and
    fields: "SemVer.major sv = to_number a" "SemVer.minor sv = to_number b"
      "SemVer.patch sv = to_number c"
      "SemVer.prerelease sv =
         (case p of None \<Rightarrow> [] | Some q \<Rightarrow> map numberify (split CHR ''.'' q))" and
    ver: "SemVer.version sv = format (to_number a) (to_number b) (to_number c)
        (case p of None \<Rightarrow> [] | Some q \<Rightarrow> map numberify (split CHR ''.'' q))"
    by (rule SemVer_new_Inr)
  note v = match_FULL_Some [OF m]
  let ?V = "a @ ''.'' @ b @ ''.'' @ c @ (case p of None \<Rightarrow> [] | Some q \<Rightarrow> CHR ''-'' # q)"
  have fmt: "format (to_number a) (to_number b) (to_number c)
        (case p of None \<Rightarrow> [] | Some q \<Rightarrow> map numberify (split CHR ''.'' q)) = ?V"
    using v(2-5) by (rule format_eq)
  have V: "SemVer.version sv = ?V" using ver fmt by simp
  have "length ?V \<le> length (replace_v (trim s))" using v(1) by simp
  also have "\<dots> \<le> length (trim s)" by (rule length_replace_v)
  also have "\<dots> \<le> length s" by (rule length_trim)
  finally have lenV: "\<not> length ?V > MAX_LENGTH" using len by simp
  have trimV: "trim ?V = ?V" using version_chars [OF v(2-5)] by (rule trim_id)
  have mV: "match_FULL ?V = Some (a, b, c, p, None)" using v(2-5) by (rule match_FULL_version)
  note eq = safe [THEN Number_safe]
  have "SemVer_new ?V = Inr (sv\<lparr>raw := ?V, build := []\<rparr>)"
    unfolding SemVer_new_def using lenV safe fields ver
    by (simp only: trimV mV) (simp add: fmt eq)
  then show ?thesis by (simp only: V)
qed

section \<open>The comparator orders by the sort key\<close>





















section \<open>Parsing, sorting and the directory loop\<close>

lemma parseVersion_eq:
  "parseVersion s =
     (case SemVer_new (replace_v s) of
        Inl e \<Rightarrow> Inr None
      | Inr sv \<Rightarrow>
          Inr (Some \<lparr> version = ''v'' @ SemVer.version sv, major = SemVer.major sv,
                       minor = SemVer.minor sv, patch = SemVer.patch sv,
                       lts = Absent, date = Absent \<rparr>))"
  by (simp add: parseVersion_def parse_def split: sum.splits)

lemma parseVersion_not_Inl: "parseVersion s \<noteq> Inl e"
  by (simp add: parseVersion_eq split: sum.splits)

lemma parseVersion_Some:
  assumes "parseVersion s = Inr (Some d)"
  obtains sv where "SemVer_new (replace_v s) = Inr sv"
    "d = \<lparr> version = ''v'' @ SemVer.version sv, major = SemVer.major sv,
           minor = SemVer.minor sv, patch = SemVer.patch sv, lts = Absent, date = Absent \<rparr>"
  using assms by (auto simp: parseVersion_eq split: sum.splits)

lemma parseVersion_version:
  assumes "parseVersion s = Inr (Some d)"
  shows "parseVersion (version d) = Inr (Some d)"
proof -
  from assms obtain sv where sv: "SemVer_new (replace_v s) = Inr sv"
    and d: "d = \<lparr> version = ''v'' @ SemVer.version sv, major = SemVer.major sv,
           minor = SemVer.minor sv, patch = SemVer.patch sv, lts = Absent, date = Absent \<rparr>"
    by (rule parseVersion_Some)
  have "replace_v (version d) = SemVer.version sv" by (simp add: d)
  then show ?thesis
    by (simp add: parseVersion_eq SemVer_new_version [OF sv] d)
qed

lemma sort_insert_mset:
  "sort_insert cmp x ys = Inr zs \<Longrightarrow> mset zs = add_mset x (mset ys)"
proof (induction ys arbitrary: zs)
  case Nil
  then show ?case by auto
next
  case (Cons y ys)
  then show ?case by (auto split: sum.splits if_splits)
qed

lemma sort_from_mset:
  "sort_from cmp acc xs = Inr r \<Longrightarrow> mset r = mset acc + mset xs"
proof (induction xs arbitrary: acc)
  case Nil
  then show ?case by auto
next
  case (Cons x xs)
  then show ?case by (auto split: sum.splits dest!: sort_insert_mset)
qed





lemma for_entries_Some:
  "for_entries h (Some d) env acc es = Inr (acc @ List.map_filter (pushed h d env) es)"
proof (induction es arbitrary: acc)
  case Nil
  show ?case by (simp add: List.map_filter_simps)
next
  case (Cons e es)
  show ?case
    by (simp add: Cons List.map_filter_simps pushed_def join_installDir_def parseVersion_not_Inl
        split: sum.splits option.splits)
qed

lemma for_entries_None: "for_entries h None env acc es = Inr r \<Longrightarrow> r = acc"
proof (induction es arbitrary: acc)
  case Nil
  then show ?case by simp
next
  case (Cons e es)
  then show ?case
    by (auto simp: join_installDir_def split: sum.splits option.splits if_splits)
qed

section \<open>The directory loop and the elements of the result\<close>

lemma set_map_filter: "set (List.map_filter f xs) = {y. \<exists>x\<in>set xs. f x = Some y}"
  by (induction xs) (auto split: option.splits)

lemma pushed_Some:
  assumes "pushed h d env e = Some v"
  obtains sv where "isDirectory e" "startsWith (name e) ''v''"
    "SemVer_new (replace_v (name e)) = Inr sv"
    "version v = ''v'' @ SemVer.version sv"
    "parseVersion (name e) = Inr (Some (NodeVersion.truncate v))"
    "path v = path_join h [d, name e]"
    "current v = isCurrent env (name e)"
    "\<not> default_flag v"
proof -
  from assms have dir: "isDirectory e" "startsWith (name e) ''v''"
    by (auto simp: pushed_def split: if_splits)
  from assms dir obtain vi where vi: "parseVersion (name e) = Inr (Some vi)"
    and v: "v = \<lparr> version = version vi, major = major vi, minor = minor vi, patch = patch vi,
                  lts = lts vi, date = date vi, path = path_join h [d, name e],
                  current = isCurrent env (name e), default_flag = False \<rparr>"
    by (auto simp: pushed_def split: sum.splits option.splits)
  from vi obtain sv where sv: "SemVer_new (replace_v (name e)) = Inr sv"
    "vi = \<lparr> version = ''v'' @ SemVer.version sv, major = SemVer.major sv,
            minor = SemVer.minor sv, patch = SemVer.patch sv, lts = Absent, date = Absent \<rparr>"
    by (rule parseVersion_Some)
  have "NodeVersion.truncate v = vi" by (simp add: v NodeVersion.truncate_def)
  then show ?thesis using that [OF dir sv(1)] vi v sv(2) by simp
qed


lemma getInstalledVersions_cases:
  obtains (empty) "getInstalledVersions h this = Inr []"
  | (listed) d entries vs where
      "get (installDir (config this)) = Some d"
      "pathExists h (Some d) = Inr True"
      "readdir h (Some d) = Inr entries"
      "sort_from (\<lambda>a b. compareVersions (version b) (version a)) []
         (List.map_filter
            (pushed h d (case getCurrentEnvironment h of Inl e \<Rightarrow> None | Inr env \<Rightarrow> Some env))
            entries) = Inr vs"
      "getInstalledVersions h this = Inr vs"
proof (cases "getInstalledVersions_try h this")
  case (Inl e)
  then have "getInstalledVersions h this = Inr []" by (simp add: getInstalledVersions_def)
  then show ?thesis by (rule empty)
next
  case (Inr vs)
  then have r: "getInstalledVersions h this = Inr vs" by (simp add: getInstalledVersions_def)
  show ?thesis
  proof (cases "get (installDir (config this))")
    case None
    with Inr have "vs = []"
      by (auto simp: getInstalledVersions_try_def Array_sort_def
          split: sum.splits if_splits dest!: for_entries_None)
    with r show ?thesis using empty by simp
  next
    case (Some d)
    show ?thesis
    proof (cases "pathExists h (Some d) = Inr True")
      case False
      with Inr Some have "vs = []"
        by (auto simp: getInstalledVersions_try_def split: sum.splits if_splits)
      with r show ?thesis using empty by simp
    next
      case True
      with Inr Some obtain entries where "readdir h (Some d) = Inr entries"
        "sort_from (\<lambda>a b. compareVersions (version b) (version a)) []
         (List.map_filter
            (pushed h d (case getCurrentEnvironment h of Inl e \<Rightarrow> None | Inr env \<Rightarrow> Some env))
            entries) = Inr vs"
        by (auto simp: getInstalledVersions_try_def Array_sort_def for_entries_Some
            split: sum.splits)
      then show ?thesis using listed [OF Some True _ _ r] by simp
    qed
  qed
qed

lemma getInstalledVersions_elements:
  assumes "getInstalledVersions h this = Inr vs" "v \<in> set vs"
  obtains d env e where "pushed h d env e = Some v"
    "env = (case getCurrentEnvironment h of Inl e \<Rightarrow> None | Inr env \<Rightarrow> Some env)"
proof (cases h this rule: getInstalledVersions_cases)
  case empty
  with assms show ?thesis by simp
next
  case (listed d entries vs')
  with assms(1) have "vs' = vs" by simp
  with listed(4) have "mset vs = mset (List.map_filter
            (pushed h d (case getCurrentEnvironment h of Inl e \<Rightarrow> None | Inr env \<Rightarrow> Some env))
            entries)"
    by (auto dest: sort_from_mset)
  then have "set vs = set (List.map_filter
            (pushed h d (case getCurrentEnvironment h of Inl e \<Rightarrow> None | Inr env \<Rightarrow> Some env))
            entries)"
    by (rule mset_eq_setD)
  with assms(2) obtain e where
    "pushed h d (case getCurrentEnvironment h of Inl e \<Rightarrow> None | Inr env \<Rightarrow> Some env) e = Some v"
    by (auto simp: set_map_filter)
  then show ?thesis using that by simp
qed

lemma NodeManager_new_absent:
  "installDir cfg = Absent \<Longrightarrow>
     installDir (config (NodeManager_new h cfg)) =
       Value (path_join h [homedir h, ''.ldesign'', ''node''])"
  "mirror cfg = Absent \<Longrightarrow>
     mirror (config (NodeManager_new h cfg)) = Value ''https://nodejs.org/dist''"
  "verbose cfg = Absent \<Longrightarrow> verbose (config (NodeManager_new h cfg)) = Value False"
  by (simp_all add: NodeManager_new_def or_default_def nullish_default_def)



lemma length_filter_mset:
  assumes "mset xs = mset ys"
  shows "length (filter P xs) = length (filter P ys)"
proof -
  have "mset (filter P xs) = mset (filter P ys)" using assms by simp
  then have "size (mset (filter P xs)) = size (mset (filter P ys))" by (simp only:)
  then show ?thesis by (simp only: size_mset)
qed

lemma filter_name_distinct:
  "distinct (map name es) \<Longrightarrow> length (filter (\<lambda>e. name e = n) es) \<le> 1"
proof (induction es)
  case Nil
  show ?case by simp
next
  case (Cons e es)
  show ?case
  proof (cases "name e = n")
    case True
    from Cons.prems have "name e \<notin> name ` set es" by simp
    with True have "\<forall>x\<in>set es. name x \<noteq> n" by blast
    then have "filter (\<lambda>e. name e = n) es = []" by (simp add: filter_empty_conv)
    then show ?thesis using True by simp
  next
    case False
    then show ?thesis using Cons by simp
  qed
qed

lemma current_count:
  "length (filter current (List.map_filter (pushed h d env) es)) \<le>
   length (filter (\<lambda>e. isCurrent env (name e)) es)"
proof (induction es)
  case Nil
  show ?case by simp
next
  case (Cons e es)
  show ?case
  proof (cases "pushed h d env e")
    case None
    then show ?thesis using Cons by simp
  next
    case (Some v)
    then have "current v = isCurrent env (name e)" by (rule pushed_Some)
    then show ?thesis using Some Cons by simp
  qed
qed

lemma isCurrent_count:
  assumes "distinct (map name es)"
  shows "length (filter (\<lambda>e. isCurrent env (name e)) es) \<le> 1"
proof (cases env)
  case None
  then show ?thesis by (simp add: isCurrent_def)
next
  case (Some E)
  have eq: "(\<lambda>e. isCurrent env (name e)) = (\<lambda>e. name e = nodeVersion E)"
    by (auto simp: Some isCurrent_def)
  show ?thesis unfolding eq by (rule filter_name_distinct [OF assms])
qed

lemma startsWith_v: "startsWith (''v'' @ t) ''v''"
  by (simp add: startsWith_def)



section \<open>What the version pattern accepts is a semantic version\<close>

lemma takeWhile_before:
  "c \<notin> set x \<Longrightarrow> takeWhile (\<lambda>y. y \<noteq> c) (x @ c # r) = x"
  "c \<notin> set x \<Longrightarrow> takeWhile (\<lambda>y. y \<noteq> c) x = x"
  by (induction x) auto

lemma after_first_append:
  "c \<notin> set x \<Longrightarrow> after_first c (x @ c # r) = Some r"
  "c \<notin> set x \<Longrightarrow> after_first c x = None"
  by (induction x) auto

lemma split_append:
  "sep \<notin> set x \<Longrightarrow> split sep (x @ sep # r) = x # split sep r"
  by (induction x) auto

lemma split_single: "sep \<notin> set x \<Longrightarrow> split sep x = [x]"
  by (induction x) auto

lemma NUMERICIDENTIFIER_numeric: "NUMERICIDENTIFIER s \<Longrightarrow> numeric_identifier s"
  by (cases s) (auto simp: numeric_identifier_def NUMERICIDENTIFIER_iff)

lemma NUMERICIDENTIFIER_no_sep:
  assumes "NUMERICIDENTIFIER s"
  shows "CHR ''.'' \<notin> set s" "CHR ''-'' \<notin> set s" "CHR ''+'' \<notin> set s"
  using assms not_digit_chars by (auto simp: NUMERICIDENTIFIER_iff list_all_iff)

lemma PRERELEASEIDENTIFIER_prerelease: "PRERELEASEIDENTIFIER s \<Longrightarrow> prerelease_identifier s"
  using PRERELEASEIDENTIFIER_chars [of s] PRERELEASEIDENTIFIER_digits [of s]
  by (auto simp: prerelease_identifier_def alphanumeric_or_hyphen_def NUMERICIDENTIFIER_numeric)

lemma BUILDIDENTIFIER_alphanumeric: "BUILDIDENTIFIER s = alphanumeric_or_hyphen s"
  by (simp add: BUILDIDENTIFIER_def alphanumeric_or_hyphen_def)

lemma match_build_valid:
  "match_build r = Some (Some b) \<Longrightarrow> list_all BUILDIDENTIFIER (split CHR ''.'' b)"
  by (cases r) (auto split: if_splits)

lemma match_tail_build:
  "match_tail r = Some (p, Some b) \<Longrightarrow> list_all BUILDIDENTIFIER (split CHR ''.'' b)"
  by (cases r)
     (auto simp: Let_def simp del: match_build.simps split: if_splits option.splits
           dest: match_build_valid)

lemma match_FULL_build:
  assumes "match_FULL t = Some (a, b, c, p, Some x)"
  shows "list_all BUILDIDENTIFIER (split CHR ''.'' x)"
proof -
  from assms obtain r3 where "match_tail r3 = Some (p, Some x)"
    by (auto simp: match_FULL_def split: option.splits)
  then show ?thesis by (rule match_tail_build)
qed

lemma version_core_numbers:
  assumes "NUMERICIDENTIFIER a" "NUMERICIDENTIFIER b" "NUMERICIDENTIFIER c"
  shows "version_core (a @ ''.'' @ b @ ''.'' @ c)"
proof -
  note na = NUMERICIDENTIFIER_no_sep [OF assms(1)] and nb = NUMERICIDENTIFIER_no_sep [OF assms(2)]
    and nc = NUMERICIDENTIFIER_no_sep [OF assms(3)]
  have "split CHR ''.'' (a @ CHR ''.'' # b @ CHR ''.'' # c) = [a, b, c]"
    by (simp only: split_append [OF na(1)] split_append [OF nb(1)] split_single [OF nc(1)])
  then show ?thesis using assms by (simp add: version_core_def NUMERICIDENTIFIER_numeric)
qed

lemma match_FULL_valid:
  assumes "match_FULL t = Some (a, b, c, p, bd)"
  shows "valid_semantic_version (replace_v t)"
proof -
  note v = match_FULL_Some [OF assms]
  let ?core = "a @ ''.'' @ b @ ''.'' @ c"
  let ?P = "case p of None \<Rightarrow> [] | Some q \<Rightarrow> CHR ''-'' # q"
  let ?B = "case bd of None \<Rightarrow> [] | Some x \<Rightarrow> CHR ''+'' # x"
  have s: "replace_v t = (?core @ ?P) @ ?B" using v(1) by simp
  note na = NUMERICIDENTIFIER_no_sep [OF v(2)] and nb = NUMERICIDENTIFIER_no_sep [OF v(3)]
    and nc = NUMERICIDENTIFIER_no_sep [OF v(4)]
  have core_minus: "CHR ''-'' \<notin> set ?core" using na nb nc by simp
  have core_plus: "CHR ''+'' \<notin> set ?core" using na nb nc by simp
  have P_plus: "CHR ''+'' \<notin> set ?P"
  proof (cases p)
    case None
    then show ?thesis by simp
  next
    case (Some q)
    with v(5) have "\<forall>c\<in>set q. is_letterdashnumber c \<or> c = CHR ''.''"
      by (simp add: prerelease_chars)
    then have "CHR ''+'' \<notin> set q" using letterdashnumber_not_sep by auto
    then show ?thesis using Some by simp
  qed
  have main_plus: "CHR ''+'' \<notin> set (?core @ ?P)" using core_plus P_plus by simp
  have main: "takeWhile (\<lambda>x. x \<noteq> CHR ''+'') (replace_v t) = ?core @ ?P"
    unfolding s using takeWhile_before [OF main_plus] by (cases bd) simp_all
  have bld: "after_first CHR ''+'' (replace_v t) = bd"
    unfolding s using after_first_append [OF main_plus] by (cases bd) simp_all
  have core: "takeWhile (\<lambda>x. x \<noteq> CHR ''-'') (?core @ ?P) = ?core"
    using takeWhile_before [OF core_minus] by (cases p) simp_all
  have pre: "after_first CHR ''-'' (?core @ ?P) = p"
    using after_first_append [OF core_minus] by (cases p) simp_all
  have 1: "version_core ?core" using v(2-4) by (rule version_core_numbers)
  have 2: "case p of None \<Rightarrow> True
           | Some q \<Rightarrow> list_all prerelease_identifier (split CHR ''.'' q)"
    using v(5) by (cases p) (auto simp: list_all_iff PRERELEASEIDENTIFIER_prerelease)
  have 3: "case bd of None \<Rightarrow> True
           | Some x \<Rightarrow> list_all alphanumeric_or_hyphen (split CHR ''.'' x)"
  proof (cases bd)
    case None
    then show ?thesis by simp
  next
    case (Some x)
    with assms have "list_all BUILDIDENTIFIER (split CHR ''.'' x)"
      by (auto dest: match_FULL_build)
    then show ?thesis using Some by (simp add: list_all_iff BUILDIDENTIFIER_alphanumeric)
  qed
  show ?thesis
    unfolding valid_semantic_version_def Let_def main bld core pre using 1 2 3 by simp
qed

section \<open>The example hosts, evaluated\<close>


lemma example_environment:
  "getCurrentEnvironment example_host =
     Inr \<lparr> nodeVersion = ''v20.0.0'', npmVersion = ''10.2.3'', nodePath = ''/usr/bin/node'',
           npmPath = ''/usr/bin/npm'', env_arch = ''x64'', env_platform = ''linux'' \<rparr>"
  by code_simp

lemma example_installed:
  "getInstalledVersions example_host example_manager =
     Inr [\<lparr> version = ''v20.0.0'', major = 20, minor = 0, patch = 0, lts = Absent, date = Absent,
             path = ''/home/u/.ldesign/node/v20.0.0'', current = True, default_flag = False \<rparr>,
          \<lparr> version = ''v18.0.0'', major = 18, minor = 0, patch = 0, lts = Absent, date = Absent,
             path = ''/home/u/.ldesign/node/v18.0.0'', current = False, default_flag = False \<rparr>]"
  by code_simp

lemma lookup_environment:
  "getCurrentEnvironment host_without_lookup =
     Inl (Error ''Failed to get Node environment: Error: Command failed: where'')"
  by code_simp

lemma no_node_environment:
  "getCurrentEnvironment host_without_node =
     Inl (Error ''Failed to get Node environment: Error: spawn node ENOENT'')"
  by code_simp

lemma example_readdir:
  "readdir example_host (get (installDir (config example_manager))) = Inr example_entries"
  by code_simp

lemma example_installed_without_node:
  "getInstalledVersions host_without_node example_manager =
     Inr [\<lparr> version = ''v20.0.0'', major = 20, minor = 0, patch = 0, lts = Absent, date = Absent,
             path = ''/home/u/.ldesign/node/v20.0.0'', current = False, default_flag = False \<rparr>,
          \<lparr> version = ''v18.0.0'', major = 18, minor = 0, patch = 0, lts = Absent, date = Absent,
             path = ''/home/u/.ldesign/node/v18.0.0'', current = False, default_flag = False \<rparr>]"
  by code_simp

lemma example_unreadable:
  "getInstalledVersions_try host_unreadable example_manager =
     Inl (Error ''EACCES: permission denied'')"
  by code_simp

lemma example_missing:
  "pathExists example_host
     (get (installDir (config (NodeManager_new example_host
        (empty_config \<lparr> installDir := Value ''/missing'' \<rparr>))))) = Inr False"
  by code_simp


section \<open>Claims about parseVersion\<close>

text \<open>
  Claim C1, as stated: for every string that \<open>parseVersion\<close> accepts, the \<open>version\<close> field
  of the descriptor is \<open>"v" + major + "." + minor + "." + patch\<close>, also for strings with a
  prerelease or build suffix. It fails for a prerelease suffix: \<open>parseVersion\<close> takes the
  version string that the parser formats, and that string keeps the prerelease
  identifiers. For \<open>1.2.3-beta\<close> the descriptor's version is \<open>v1.2.3-beta\<close>.
\<close>

theorem parseVersion_prerelease_counterexample:
  "parseVersion ''1.2.3-beta'' =
     Inr (Some \<lparr> version = ''v1.2.3-beta'', major = 1, minor = 2, patch = 3,
                  lts = Absent, date = Absent \<rparr>) \<and>
   ''v1.2.3-beta'' \<noteq>
     ''v'' @ Number_toString 1 @ ''.'' @ Number_toString 2 @ ''.'' @ Number_toString 3"
  by code_simp

text \<open>
  Claim C1, amended: for every accepted string the \<open>version\<close> field is
  \<open>"v" + major + "." + minor + "." + patch\<close>, followed by \<open>-\<close> and the dot-joined
  prerelease identifiers when the string has a prerelease suffix; so it is exactly
  \<open>"v" + major + "." + minor + "." + patch\<close> when there is no prerelease suffix, with or
  without a leading \<open>v\<close> and with or without a build suffix.
\<close>

theorem parseVersion_canonical:
  assumes "parseVersion s = Inr (Some d)" and "SemVer_new (replace_v s) = Inr sv"
  shows "version d =
           ''v'' @ Number_toString (major d) @ ''.'' @ Number_toString (minor d) @ ''.'' @
           Number_toString (patch d) @
           (if SemVer.prerelease sv = [] then []
            else ''-'' @ join ''.'' (map ident_toString (SemVer.prerelease sv)))"
proof -
  from assms(2) obtain a b c p bd where
    "SemVer.major sv = to_number a" "SemVer.minor sv = to_number b"
    "SemVer.patch sv = to_number c"
    "SemVer.prerelease sv = (case p of None \<Rightarrow> [] | Some q \<Rightarrow> map numberify (split CHR ''.'' q))"
    "SemVer.version sv = format (to_number a) (to_number b) (to_number c)
        (case p of None \<Rightarrow> [] | Some q \<Rightarrow> map numberify (split CHR ''.'' q))"
    by (rule SemVer_new_Inr)
  then have v: "SemVer.version sv =
      format (SemVer.major sv) (SemVer.minor sv) (SemVer.patch sv) (SemVer.prerelease sv)"
    by simp
  from assms(1) obtain sv' where "SemVer_new (replace_v s) = Inr sv'" and
    d: "d = \<lparr> version = ''v'' @ SemVer.version sv', major = SemVer.major sv',
           minor = SemVer.minor sv', patch = SemVer.patch sv', lts = Absent, date = Absent \<rparr>"
    by (rule parseVersion_Some)
  with assms(2) have "sv' = sv" by simp
  then show ?thesis using v by (simp add: d format_def)
qed

theorem parseVersion_canonical_witness:
  "parseVersion ''v20.11.0+build.5'' =
     Inr (Some \<lparr> version = ''v20.11.0'', major = 20, minor = 11, patch = 0,
                  lts = Absent, date = Absent \<rparr>) \<and>
   SemVer_new (replace_v ''v20.11.0+build.5'') =
     Inr \<lparr> raw = ''20.11.0+build.5'', major = 20, minor = 11, patch = 0, prerelease = [],
           build = [''build'', ''5''], version = ''20.11.0'' \<rparr> \<and>
   ''v20.11.0'' =
     ''v'' @ Number_toString 20 @ ''.'' @ Number_toString 11 @ ''.'' @ Number_toString 0"
proof -
  have p: "parseVersion ''v20.11.0+build.5'' =
     Inr (Some \<lparr> version = ''v20.11.0'', major = 20, minor = 11, patch = 0,
                  lts = Absent, date = Absent \<rparr>)"
    by code_simp
  have n: "SemVer_new (replace_v ''v20.11.0+build.5'') =
     Inr \<lparr> raw = ''20.11.0+build.5'', major = 20, minor = 11, patch = 0, prerelease = [],
           build = [''build'', ''5''], version = ''20.11.0'' \<rparr>"
    by code_simp
  from parseVersion_canonical [OF p n] show ?thesis using p n by simp
qed

text \<open>
  Claim C9: \<open>parseVersion\<close> is idempotent on its own output. If \<open>parseVersion s\<close> returns
  a descriptor \<open>d\<close>, then \<open>parseVersion\<close> of \<open>d\<close>'s version string returns \<open>d\<close> again: the same
  version, major, minor and patch (and the optional fields unset).
\<close>

theorem parseVersion_idempotent:
  "parseVersion s = Inr (Some d) \<Longrightarrow> parseVersion (version d) = Inr (Some d)"
  by (rule parseVersion_version)

theorem parseVersion_idempotent_witness:
  "parseVersion ''1.2.3-beta.1+b7'' =
     Inr (Some \<lparr> version = ''v1.2.3-beta.1'', major = 1, minor = 2, patch = 3,
                  lts = Absent, date = Absent \<rparr>) \<and>
   parseVersion ''v1.2.3-beta.1'' =
     Inr (Some \<lparr> version = ''v1.2.3-beta.1'', major = 1, minor = 2, patch = 3,
                  lts = Absent, date = Absent \<rparr>)"
proof -
  have p: "parseVersion ''1.2.3-beta.1+b7'' =
     Inr (Some \<lparr> version = ''v1.2.3-beta.1'', major = 1, minor = 2, patch = 3,
                  lts = Absent, date = Absent \<rparr>)"
    by code_simp
  from parseVersion_idempotent [OF p] show ?thesis using p by simp
qed

text \<open>
  Claim C4, as stated: for every input string that is not a valid semantic version after
  the optional leading \<open>v\<close> is stripped, \<open>parseVersion\<close> returns an absent result. It
  fails for \<open>vv1.2.3\<close>: what is left after one \<open>v\<close> is stripped, \<open>v1.2.3\<close>, is not a
  semantic version, but the parser trims white space and accepts a leading \<open>v\<close> of its
  own, so \<open>parseVersion\<close> returns the descriptor of \<open>v1.2.3\<close>.
\<close>

theorem parseVersion_second_v_counterexample:
  "parseVersion ''vv1.2.3'' =
     Inr (Some \<lparr> version = ''v1.2.3'', major = 1, minor = 2, patch = 3,
                  lts = Absent, date = Absent \<rparr>) \<and>
   \<not> valid_semantic_version (replace_v ''vv1.2.3'')"
  by code_simp

text \<open>
  Claim C4, amended: \<open>parseVersion\<close> never raises an error, and it returns an absent
  result for every input string that, after the optional leading \<open>v\<close> is stripped, the
  surrounding white space is trimmed and one further optional leading \<open>v\<close> is stripped,
  is not a valid semantic version.
\<close>

theorem parseVersion_invalid:
  "parseVersion s \<noteq> Inl e \<and>
   (\<not> valid_semantic_version (replace_v (trim (replace_v s))) \<longrightarrow> parseVersion s = Inr None)"
proof (intro conjI impI)
  show "parseVersion s \<noteq> Inl e" by (rule parseVersion_not_Inl)
next
  assume inv: "\<not> valid_semantic_version (replace_v (trim (replace_v s)))"
  show "parseVersion s = Inr None"
  proof (cases "SemVer_new (replace_v s)")
    case (Inl er)
    then show ?thesis by (simp add: parseVersion_eq)
  next
    case (Inr sv)
    then obtain a b c p bd where "match_FULL (trim (replace_v s)) = Some (a, b, c, p, bd)"
      by (rule SemVer_new_Inr)
    then have "valid_semantic_version (replace_v (trim (replace_v s)))"
      by (rule match_FULL_valid)
    with inv show ?thesis by simp
  qed
qed

theorem parseVersion_invalid_witness:
  "parseVersion ''not-a-version'' \<noteq> Inl (TypeError ''Invalid Version: not-a-version'') \<and>
   \<not> valid_semantic_version (replace_v (trim (replace_v ''not-a-version''))) \<and>
   parseVersion ''not-a-version'' = Inr None"
proof -
  have v: "\<not> valid_semantic_version (replace_v (trim (replace_v ''not-a-version'')))"
    by code_simp
  from parseVersion_invalid [of "''not-a-version''" "TypeError ''Invalid Version: not-a-version''"]
  show ?thesis using v by simp
qed

section \<open>Claims about the constructor\<close>

text \<open>
  Claim C3: every configuration field that is not given a value falls back to its default,
  also when the field is present and carries no value. The constructor computes the
  defaults with \<open>||\<close> and \<open>??\<close> and then spreads \<open>config\<close> over them, so a field that is
  present with the value \<open>undefined\<close> overwrites its default: with
  \<open>{installDir: undefined}\<close> the manager's install directory is \<open>undefined\<close>, not
  \<open><home>/.ldesign/node\<close>. The theorem evaluates the constructor there.
\<close>

theorem NodeManager_new_undefined_installDir:
  "config (NodeManager_new h \<lparr> installDir = Undefined, mirror = Absent, proxy = Absent,
                                verbose = Absent \<rparr>) =
     \<lparr> installDir = Undefined, mirror = Value ''https://nodejs.org/dist'', proxy = Absent,
       verbose = Value False \<rparr> \<and>
   get (installDir (config (NodeManager_new h \<lparr> installDir = Undefined, mirror = Absent,
                                                proxy = Absent, verbose = Absent \<rparr>))) = None"
  by (simp add: NodeManager_new_def or_default_def nullish_default_def)

section \<open>Claims about getCurrentEnvironment\<close>

text \<open>
  Claim C5, as stated: when neither the \<open>node\<close> nor the \<open>npm\<close> version invocation fails,
  a complete snapshot is returned. It fails on a host where both version invocations
  succeed and neither \<open>which\<close> nor \<open>where\<close> can be run: the path lookups are inside the
  same \<open>try\<close> block, and the call fails with the wrapped error.
\<close>

theorem getCurrentEnvironment_lookup_counterexample:
  "execa host_without_lookup ''node'' [''--version''] False = Inr ''v20.0.0'' \<and>
   execa host_without_lookup ''npm'' [''--version''] False = Inr ''10.2.3'' \<and>
   getCurrentEnvironment host_without_lookup =
     Inl (Error ''Failed to get Node environment: Error: Command failed: where'')"
  by code_simp

text \<open>
  Claim C5, amended: if the \<open>node\<close> or the \<open>npm\<close> version invocation fails, the whole call
  fails with one error that wraps the cause, and no snapshot is returned. If neither fails
  and, for each of \<open>node\<close> and \<open>npm\<close>, the \<open>which\<close> lookup or else the \<open>where\<close> lookup
  succeeds, the call returns the complete snapshot, with trimmed version strings and the
  trimmed first line of each lookup. If both lookups of an executable fail, the call fails
  with a wrapped error as well.
\<close>

theorem getCurrentEnvironment_results:
  "(execa h ''node'' [''--version''] False = Inl e \<longrightarrow>
      getCurrentEnvironment h =
        Inl (Error (''Failed to get Node environment: '' @ error_toString e))) \<and>
   (execa h ''node'' [''--version''] False = Inr nv \<and>
    execa h ''npm'' [''--version''] False = Inl e \<longrightarrow>
      getCurrentEnvironment h =
        Inl (Error (''Failed to get Node environment: '' @ error_toString e))) \<and>
   (execa h ''node'' [''--version''] False = Inr nv \<and>
    execa h ''npm'' [''--version''] False = Inr pv \<and>
    catch_with (execa h ''which'' [''node''] True) (execa h ''where'' [''node''] True) = Inr np \<and>
    catch_with (execa h ''which'' [''npm''] True) (execa h ''where'' [''npm''] True) = Inr pp \<longrightarrow>
      getCurrentEnvironment h =
        Inr \<lparr> nodeVersion = trim nv, npmVersion = trim pv,
              nodePath = trim (hd (split (CHR 0x0A) np)),
              npmPath = trim (hd (split (CHR 0x0A) pp)),
              env_arch = arch h, env_platform = platform h \<rparr>) \<and>
   (execa h ''node'' [''--version''] False = Inr nv \<and>
    execa h ''npm'' [''--version''] False = Inr pv \<and>
    (catch_with (execa h ''which'' [''node''] True) (execa h ''where'' [''node''] True) = Inl e \<or>
     catch_with (execa h ''which'' [''npm''] True) (execa h ''where'' [''npm''] True) = Inl e) \<longrightarrow>
      (\<exists>e'. getCurrentEnvironment h =
        Inl (Error (''Failed to get Node environment: '' @ error_toString e'))))"
proof -
  have fl: "first_line x = Inr (trim (hd (split (CHR 0x0A) x)))" for x
    using split_nonempty [of "CHR 0x0A" x]
    by (cases "split (CHR 0x0A) x") (simp_all add: first_line_def)
  show ?thesis
    by (auto simp: getCurrentEnvironment_def getCurrentEnvironment_try_def fl split: sum.splits)
qed

theorem getCurrentEnvironment_results_witness:
  "(execa host_without_node ''node'' [''--version''] False = Inl (Error ''spawn node ENOENT'') \<and>
    getCurrentEnvironment host_without_node =
      Inl (Error ''Failed to get Node environment: Error: spawn node ENOENT'')) \<and>
   (execa example_host ''node'' [''--version''] False = Inr ''v20.0.0'' \<and>
    execa example_host ''npm'' [''--version''] False = Inr ''10.2.3'' \<and>
    getCurrentEnvironment example_host =
     Inr \<lparr> nodeVersion = ''v20.0.0'', npmVersion = ''10.2.3'', nodePath = ''/usr/bin/node'',
           npmPath = ''/usr/bin/npm'', env_arch = ''x64'', env_platform = ''linux'' \<rparr>)"
proof -
  have a: "execa host_without_node ''node'' [''--version''] False = Inl (Error ''spawn node ENOENT'')"
    by code_simp
  have b: "execa example_host ''node'' [''--version''] False = Inr ''v20.0.0''"
    "execa example_host ''npm'' [''--version''] False = Inr ''10.2.3''"
    "catch_with (execa example_host ''which'' [''node''] True)
                (execa example_host ''where'' [''node''] True) =
       Inr (''/usr/bin/node'' @ [CHR 0x0A] @ ''/opt/node/bin/node'')"
    "catch_with (execa example_host ''which'' [''npm''] True)
                (execa example_host ''where'' [''npm''] True) = Inr ''/usr/bin/npm''"
    by code_simp+
  have c: "trim ''v20.0.0'' = ''v20.0.0''" "trim ''10.2.3'' = ''10.2.3''"
    "trim (hd (split (CHR 0x0A) (''/usr/bin/node'' @ [CHR 0x0A] @ ''/opt/node/bin/node''))) =
       ''/usr/bin/node''"
    "trim (hd (split (CHR 0x0A) ''/usr/bin/npm'')) = ''/usr/bin/npm''"
    "arch example_host = ''x64''" "platform example_host = ''linux''"
    by code_simp+
  from getCurrentEnvironment_results
    [of host_without_node "Error ''spawn node ENOENT''" "''v20.0.0''" "''10.2.3''" "[]" "[]"]
    a
  have 1: "getCurrentEnvironment host_without_node =
      Inl (Error ''Failed to get Node environment: Error: spawn node ENOENT'')"
    by simp
  from getCurrentEnvironment_results
    [of example_host "Error []" "''v20.0.0''" "''10.2.3''"
        "''/usr/bin/node'' @ [CHR 0x0A] @ ''/opt/node/bin/node''" "''/usr/bin/npm''"]
    b
  have 2: "getCurrentEnvironment example_host =
     Inr \<lparr> nodeVersion = ''v20.0.0'', npmVersion = ''10.2.3'', nodePath = ''/usr/bin/node'',
           npmPath = ''/usr/bin/npm'', env_arch = ''x64'', env_platform = ''linux'' \<rparr>"
    by (simp only: c)
  show ?thesis using a b 1 2 by simp
qed

section \<open>Claims about getInstalledVersions and isVersionInstalled\<close>




text \<open>
  Claim C6: \<open>getInstalledVersions\<close> never propagates an error. It always returns a
  collection; the collection is empty when the install directory does not exist, when
  \<open>pathExists\<close> or \<open>readdir\<close> fails, and whenever anything inside the \<open>try\<close> block throws.
\<close>

theorem getInstalledVersions_never_throws:
  "(\<exists>vs. getInstalledVersions h this = Inr vs) \<and>
   (pathExists h (get (installDir (config this))) = Inr False \<longrightarrow>
      getInstalledVersions h this = Inr []) \<and>
   (pathExists h (get (installDir (config this))) = Inl e \<longrightarrow>
      getInstalledVersions h this = Inr []) \<and>
   (readdir h (get (installDir (config this))) = Inl e \<longrightarrow>
      getInstalledVersions h this = Inr []) \<and>
   (getInstalledVersions_try h this = Inl e \<longrightarrow> getInstalledVersions h this = Inr [])"
  by (auto simp: getInstalledVersions_def getInstalledVersions_try_def split: sum.splits)

theorem getInstalledVersions_never_throws_witness:
  "pathExists example_host
     (get (installDir (config (NodeManager_new example_host
        (empty_config \<lparr> installDir := Value ''/missing'' \<rparr>))))) = Inr False \<and>
   getInstalledVersions example_host
     (NodeManager_new example_host (empty_config \<lparr> installDir := Value ''/missing'' \<rparr>)) = Inr [] \<and>
   getInstalledVersions_try host_unreadable example_manager =
     Inl (Error ''EACCES: permission denied'') \<and>
   getInstalledVersions host_unreadable example_manager = Inr []"
  using getInstalledVersions_never_throws
      [of example_host "NodeManager_new example_host (empty_config \<lparr> installDir := Value ''/missing'' \<rparr>)"
          "Error ''x''"]
    getInstalledVersions_never_throws
      [of host_unreadable example_manager "Error ''EACCES: permission denied''"]
    example_missing example_unreadable
  by blast

text \<open>
  Claim C7: in every collection that \<open>getInstalledVersions\<close> returns, every entry has its
  default flag false. No other operation of the manager builds such entries.
\<close>

theorem getInstalledVersions_default_false:
  "getInstalledVersions h this = Inr vs \<Longrightarrow> \<forall>v\<in>set vs. \<not> default_flag v"
proof
  fix v assume "getInstalledVersions h this = Inr vs" "v \<in> set vs"
  then obtain d env e where "pushed h d env e = Some v"
    by (rule getInstalledVersions_elements)
  then show "\<not> default_flag v" by (rule pushed_Some)
qed

theorem getInstalledVersions_default_false_witness:
  "getInstalledVersions example_host example_manager =
     Inr [\<lparr> version = ''v20.0.0'', major = 20, minor = 0, patch = 0, lts = Absent, date = Absent,
             path = ''/home/u/.ldesign/node/v20.0.0'', current = True, default_flag = False \<rparr>,
          \<lparr> version = ''v18.0.0'', major = 18, minor = 0, patch = 0, lts = Absent, date = Absent,
             path = ''/home/u/.ldesign/node/v18.0.0'', current = False, default_flag = False \<rparr>] \<and>
   list_all (\<lambda>v. \<not> default_flag v)
     [\<lparr> version = ''v20.0.0'', major = 20, minor = 0, patch = 0, lts = Absent, date = Absent,
             path = ''/home/u/.ldesign/node/v20.0.0'', current = True, default_flag = False \<rparr>,
          \<lparr> version = ''v18.0.0'', major = 18, minor = 0, patch = 0, lts = Absent, date = Absent,
             path = ''/home/u/.ldesign/node/v18.0.0'', current = False, default_flag = False \<rparr>]"
  using getInstalledVersions_default_false [OF example_installed] example_installed
  by (simp add: list_all_iff)

text \<open>
  Claim C8: \<open>isVersionInstalled(s)\<close> is true exactly when some entry of
  \<open>getInstalledVersions()\<close> has a version string equal to \<open>s\<close>; the input is compared as
  it is, so an input that does not start with \<open>v\<close> matches no entry.
\<close>

theorem isVersionInstalled_exact:
  "getInstalledVersions h this = Inr vs \<Longrightarrow>
     isVersionInstalled h this s = Inr (\<exists>v\<in>set vs. version v = s) \<and>
     (\<not> startsWith s ''v'' \<longrightarrow> isVersionInstalled h this s = Inr False)"
proof -
  assume a: "getInstalledVersions h this = Inr vs"
  then have 1: "isVersionInstalled h this s = Inr (\<exists>v\<in>set vs. version v = s)"
    by (simp add: isVersionInstalled_def list_ex_iff)
  have "startsWith (version v) ''v''" if "v \<in> set vs" for v
  proof -
    from a that obtain d env x where p: "pushed h d env x = Some v"
      by (rule getInstalledVersions_elements)
    show ?thesis
    proof (rule pushed_Some [OF p])
      fix sv assume "version v = ''v'' @ SemVer.version sv"
      then show ?thesis by (simp only: startsWith_v)
    qed
  qed
  then have "\<not> startsWith s ''v'' \<longrightarrow> \<not> (\<exists>v\<in>set vs. version v = s)" by blast
  with 1 show ?thesis by simp
qed

theorem isVersionInstalled_exact_witness:
  "getInstalledVersions example_host example_manager =
     Inr [\<lparr> version = ''v20.0.0'', major = 20, minor = 0, patch = 0, lts = Absent, date = Absent,
             path = ''/home/u/.ldesign/node/v20.0.0'', current = True, default_flag = False \<rparr>,
          \<lparr> version = ''v18.0.0'', major = 18, minor = 0, patch = 0, lts = Absent, date = Absent,
             path = ''/home/u/.ldesign/node/v18.0.0'', current = False, default_flag = False \<rparr>] \<and>
   isVersionInstalled example_host example_manager ''v20.0.0'' = Inr True \<and>
   \<not> startsWith ''20.0.0'' ''v'' \<and>
   isVersionInstalled example_host example_manager ''20.0.0'' = Inr False"
proof -
  have n: "\<not> startsWith ''20.0.0'' ''v''" by (simp add: startsWith_def)
  from isVersionInstalled_exact [OF example_installed, of "''v20.0.0''"]
  have 1: "isVersionInstalled example_host example_manager ''v20.0.0'' = Inr True" by simp
  from isVersionInstalled_exact [OF example_installed, of "''20.0.0''"] n
  have 2: "isVersionInstalled example_host example_manager ''20.0.0'' = Inr False" by blast
  show ?thesis using example_installed n 1 2 by simp
qed

text \<open>
  Claim C10: when the names in the directory listing are distinct, at most one entry of
  the collection returned by \<open>getInstalledVersions\<close> has its current flag set; and when
  the environment query fails, no entry has it set.
\<close>

theorem getInstalledVersions_current_unique:
  "((\<forall>entries. readdir h (get (installDir (config this))) = Inr entries \<longrightarrow>
        distinct (map name entries)) \<and>
    getInstalledVersions h this = Inr vs \<longrightarrow> length (filter current vs) \<le> 1) \<and>
   (getCurrentEnvironment h = Inl e \<and> getInstalledVersions h this = Inr vs \<longrightarrow>
      (\<forall>v\<in>set vs. \<not> current v))"
proof (intro conjI impI)
  assume a: "(\<forall>entries. readdir h (get (installDir (config this))) = Inr entries \<longrightarrow>
        distinct (map name entries)) \<and> getInstalledVersions h this = Inr vs"
  show "length (filter current vs) \<le> 1"
  proof (cases h this rule: getInstalledVersions_cases)
    case empty
    with a show ?thesis by simp
  next
    case (listed d entries vs')
    with a have eq: "vs' = vs" and dis: "distinct (map name entries)" by simp_all
    let ?env = "case getCurrentEnvironment h of Inl e \<Rightarrow> None | Inr env \<Rightarrow> Some env"
    have "mset vs = mset (List.map_filter (pushed h d ?env) entries)"
      using listed(4) eq by (auto dest: sort_from_mset)
    then have "length (filter current vs) =
               length (filter current (List.map_filter (pushed h d ?env) entries))"
      by (rule length_filter_mset)
    also have "\<dots> \<le> length (filter (\<lambda>e. isCurrent ?env (name e)) entries)"
      by (rule current_count)
    also have "\<dots> \<le> 1" using dis by (rule isCurrent_count)
    finally show ?thesis .
  qed
next
  assume a: "getCurrentEnvironment h = Inl e \<and> getInstalledVersions h this = Inr vs"
  show "\<forall>v\<in>set vs. \<not> current v"
  proof
    fix v assume "v \<in> set vs"
    with a obtain d env x where p: "pushed h d env x = Some v"
      and env: "env = (case getCurrentEnvironment h of Inl e \<Rightarrow> None | Inr env \<Rightarrow> Some env)"
      by (blast elim: getInstalledVersions_elements)
    from p have "current v = isCurrent env (name x)" by (rule pushed_Some)
    then show "\<not> current v" using env a by (simp add: isCurrent_def)
  qed
qed

theorem getInstalledVersions_current_unique_witness:
  "readdir example_host (get (installDir (config example_manager))) = Inr example_entries \<and>
   distinct (map name example_entries) \<and>
   getInstalledVersions example_host example_manager =
     Inr [\<lparr> version = ''v20.0.0'', major = 20, minor = 0, patch = 0, lts = Absent, date = Absent,
             path = ''/home/u/.ldesign/node/v20.0.0'', current = True, default_flag = False \<rparr>,
          \<lparr> version = ''v18.0.0'', major = 18, minor = 0, patch = 0, lts = Absent, date = Absent,
             path = ''/home/u/.ldesign/node/v18.0.0'', current = False, default_flag = False \<rparr>] \<and>
   length (filter current
     [\<lparr> version = ''v20.0.0'', major = 20, minor = 0, patch = 0, lts = Absent, date = Absent,
             path = ''/home/u/.ldesign/node/v20.0.0'', current = True, default_flag = False \<rparr>,
          \<lparr> version = ''v18.0.0'', major = 18, minor = 0, patch = 0, lts = Absent, date = Absent,
             path = ''/home/u/.ldesign/node/v18.0.0'', current = False, default_flag = False \<rparr>])
     \<le> 1 \<and>
   getCurrentEnvironment host_without_node =
     Inl (Error ''Failed to get Node environment: Error: spawn node ENOENT'') \<and>
   list_all (\<lambda>v. \<not> current v)
     [\<lparr> version = ''v20.0.0'', major = 20, minor = 0, patch = 0, lts = Absent, date = Absent,
             path = ''/home/u/.ldesign/node/v20.0.0'', current = False, default_flag = False \<rparr>,
          \<lparr> version = ''v18.0.0'', major = 18, minor = 0, patch = 0, lts = Absent, date = Absent,
             path = ''/home/u/.ldesign/node/v18.0.0'', current = False, default_flag = False \<rparr>]"
proof -
  have d: "distinct (map name example_entries)" by (simp add: example_entries_def)
  then have h: "\<forall>entries. readdir example_host (get (installDir (config example_manager))) =
      Inr entries \<longrightarrow> distinct (map name entries)"
    by (simp add: example_readdir)
  from getInstalledVersions_current_unique
    [of example_host example_manager _ "Error ''x''"] h example_installed
  have 1: "length (filter current
     [\<lparr> version = ''v20.0.0'', major = 20, minor = 0, patch = 0, lts = Absent, date = Absent,
             path = ''/home/u/.ldesign/node/v20.0.0'', current = True, default_flag = False \<rparr>,
          \<lparr> version = ''v18.0.0'', major = 18, minor = 0, patch = 0, lts = Absent, date = Absent,
             path = ''/home/u/.ldesign/node/v18.0.0'', current = False, default_flag = False \<rparr>])
     \<le> 1"
    by blast
  show ?thesis
    using example_readdir d example_installed 1 no_node_environment by simp
qed

end
